theory Spec2Isabelle
  imports Main "HOL-Library.Multiset" "HOL-Library.Char_ord" "HOL-Library.List_Lexorder"
begin

section \<open>Python values, errors and generators\<close>

text \<open>
  The exceptions the modelled code can raise. \<open>UnboundLocalError\<close> is the reading of a
  local variable that no statement has assigned yet.
\<close>

datatype error =
    ArgumentError | AttributeError | IndexError | KeyError | NameError
  | TypeError | UnboundLocalError | ValueError | ZeroDivisionError

text \<open>
  The values found in rows: \<open>None\<close>, integers, byte strings and tuples of such values.
  All of them are hashable, and their equality is structural. Floats, longs and unicode
  strings are not modelled.
\<close>

datatype val = VNone | VInt int | VStr string | VTuple "val list"

type_synonym row = "val list"

text \<open>
  A generator run to its end over a finite input: the rows it yields, then either normal
  exhaustion (\<open>None\<close>) or the exception that stops it.
\<close>

type_synonym 'a gen = "'a list \<times> error option"

text \<open>\<open>xs[i]\<close>: negative indices count from the end, out of range raises IndexError.\<close>

definition py_getitem :: "'a list \<Rightarrow> int \<Rightarrow> error + 'a" where
  "py_getitem xs i =
     (if 0 \<le> i \<and> i < int (length xs) then Inr (xs ! nat i)
      else if i < 0 \<and> - int (length xs) \<le> i then Inr (xs ! nat (int (length xs) + i))
      else Inl IndexError)"

section \<open>fields.py: Field\<close>

text \<open>
  Field and FieldList objects are mutable and shared by reference: \<open>FieldList.append\<close>
  stores the Field object it is given, and \<open>FieldList.copy\<close> hands the same Field
  objects to the new list. The model therefore keeps an explicit store. An address is
  the identity of an object.
\<close>

type_synonym addr = nat

record Field =
  name :: string
  label :: "string option"
  storage_type :: string
  analytical_type :: string
  concrete_storage_type :: "string option"
  missing_values :: "val option"

definition storage_types :: "string list" where
  "storage_types = [''unknown'', ''string'', ''text'', ''integer'', ''float'', ''boolean'', ''date'']"

definition analytical_types :: "string list" where
  "analytical_types = [''default'', ''typeless'', ''flag'', ''discrete'', ''range'', ''set'', ''ordered_set'']"

text \<open>The class attribute \<open>Field.default_analytical_type\<close>, a dictionary.\<close>

definition default_analytical_type :: "(string \<times> string) list" where
  "default_analytical_type =
     [(''unknown'', ''typeless''), (''string'', ''typeless''), (''text'', ''typeless''),
      (''integer'', ''discrete''), (''float'', ''range''), (''date'', ''typeless'')]"

text \<open>
  \<open>Field(**d)\<close> for a keyword dictionary \<open>d\<close> with string values, kept as an association
  list: a keyword that is no parameter of \<open>__init__\<close> and a missing \<open>name\<close> are type
  errors; the defaults are those of the signature.
\<close>

definition Field_init :: "(string \<times> string) list \<Rightarrow> error + Field" where
  "Field_init d =
     (if \<exists>k\<in>set (map fst d). k \<notin> set [''name'', ''label'', ''storage_type'', ''analytical_type'',
                                        ''concrete_storage_type'', ''missing_values'']
      then Inl TypeError
      else case map_of d ''name'' of
             None \<Rightarrow> Inl TypeError
           | Some n \<Rightarrow>
               Inr \<lparr>name = n,
                    label = map_of d ''label'',
                    storage_type = (case map_of d ''storage_type'' of None \<Rightarrow> ''unknown'' | Some s \<Rightarrow> s),
                    analytical_type = (case map_of d ''analytical_type'' of None \<Rightarrow> ''typeless'' | Some s \<Rightarrow> s),
                    concrete_storage_type = map_of d ''concrete_storage_type'',
                    missing_values = map_option VStr (map_of d ''missing_values'')\<rparr>)"

section \<open>fields.py: FieldList\<close>

text \<open>
  A FieldList object owns three containers, created by its \<open>__init__\<close> and never
  replaced or handed to another FieldList: the list \<open>_fields\<close> of Field objects, the
  dictionary \<open>_field_dict\<close> from names to Field objects and the list \<open>_field_names\<close>.
  The object and its containers are one entry of the store; \<open>priv_fields\<close>,
  \<open>priv_field_dict\<close> and \<open>priv_field_names\<close> stand for the three attributes.
\<close>

record FieldList =
  priv_fields :: "addr list"
  priv_field_dict :: "string \<rightharpoonup> addr"
  priv_field_names :: "string list"

record heap =
  field_objs :: "addr \<rightharpoonup> Field"
  list_objs :: "addr \<rightharpoonup> FieldList"
  next_addr :: addr

definition empty_heap :: heap where
  "empty_heap = \<lparr>field_objs = Map.empty, list_objs = Map.empty, next_addr = 0\<rparr>"

text \<open>
  Reading the object at an address. In the stores built by the operations below every
  address that is read holds an object.
\<close>

definition get_field :: "heap \<Rightarrow> addr \<Rightarrow> Field" where
  "get_field h a = the (field_objs h a)"

definition get_list :: "heap \<Rightarrow> addr \<Rightarrow> FieldList" where
  "get_list h a = the (list_objs h a)"

definition alloc_field :: "heap \<Rightarrow> Field \<Rightarrow> heap \<times> addr" where
  "alloc_field h f =
     (h\<lparr>field_objs := (field_objs h)(next_addr h \<mapsto> f), next_addr := Suc (next_addr h)\<rparr>, next_addr h)"

definition alloc_list :: "heap \<Rightarrow> FieldList \<Rightarrow> heap \<times> addr" where
  "alloc_list h l =
     (h\<lparr>list_objs := (list_objs h)(next_addr h \<mapsto> l), next_addr := Suc (next_addr h)\<rparr>, next_addr h)"

text \<open>An attribute assignment \<open>field.attr = v\<close> on the Field object at an address.\<close>

definition Field_setattr :: "heap \<Rightarrow> addr \<Rightarrow> (Field \<Rightarrow> Field) \<Rightarrow> heap" where
  "Field_setattr h a upd = h\<lparr>field_objs := (field_objs h)(a \<mapsto> upd (get_field h a))\<rparr>"

text \<open>\<open>field.label = v\<close>.\<close>

definition Field_set_label :: "heap \<Rightarrow> addr \<Rightarrow> string option \<Rightarrow> heap" where
  "Field_set_label h a v = Field_setattr h a (\<lambda>f. f\<lparr>label := v\<rparr>)"

text \<open>
  What \<open>append\<close> accepts: a Field object, a string, a tuple or list (of strings), a
  dictionary (with string values), or an object of any other type.
\<close>

datatype field_spec =
    SpecField addr
  | SpecStr string
  | SpecSeq "string list"
  | SpecDict "(string \<times> string) list"
  | SpecOther

text \<open>\<open>d[k] = v\<close> on a dictionary kept as an association list.\<close>

definition dict_set :: "(string \<times> string) list \<Rightarrow> string \<Rightarrow> string \<Rightarrow> (string \<times> string) list" where
  "dict_set d k v = (if k \<in> set (map fst d) then map (\<lambda>(k', v'). if k' = k then (k', v) else (k', v')) d
                    else d @ [(k, v)])"

text \<open>\<open>if k in field: d[k] = field[k]\<close>.\<close>

definition copy_key :: "(string \<times> string) list \<Rightarrow> string \<Rightarrow> (string \<times> string) list \<Rightarrow> (string \<times> string) list" where
  "copy_key field k d = (case map_of field k of None \<Rightarrow> d | Some v \<Rightarrow> dict_set d k v)"

text \<open>
  The first part of \<open>append\<close>, up to \<open>new_field\<close>: the keyword dictionary \<open>d\<close> starts with
  \<open>storage_type = "unknown"\<close> and \<open>analytical_type = "typeless"\<close> and is filled from the
  description.
\<close>

definition spec_dict :: "field_spec \<Rightarrow> error + (string \<times> string) list" where
  "spec_dict field =
     (let d = [(''storage_type'', ''unknown''), (''analytical_type'', ''typeless'')] in
      case field of
        SpecStr s \<Rightarrow> Inr (dict_set d ''name'' s)
      | SpecSeq xs \<Rightarrow>
          (case py_getitem xs 0 of
             Inl e \<Rightarrow> Inl e
           | Inr n \<Rightarrow>
               (let d1 = dict_set d ''name'' n in
                if length xs > 1
                then (let d2 = dict_set d1 ''storage_type'' (xs ! 1) in
                      if length xs > 2 then Inr (dict_set d2 ''analytical_type'' (xs ! 2)) else Inr d2)
                else Inr d1))
      | SpecDict f \<Rightarrow>
          (case map_of f ''name'' of
             None \<Rightarrow> Inl KeyError
           | Some n \<Rightarrow>
               Inr (copy_key f ''adapter_storage_type''
                     (copy_key f ''analytical_type''
                       (copy_key f ''storage_type''
                         (copy_key f ''label'' (dict_set d ''name'' n))))))
      | _ \<Rightarrow> Inl ValueError)"

text \<open>
  The test \<open>"analytical_type" not in d\<close> guards a read of \<open>Field.default_analytical_types\<close>,
  an attribute the class does not have (its table is \<open>default_analytical_type\<close>).
\<close>

definition new_field :: "heap \<Rightarrow> field_spec \<Rightarrow> error + (heap \<times> addr)" where
  "new_field h field =
     (case field of
        SpecField a \<Rightarrow> Inr (h, a)
      | _ \<Rightarrow>
          (case spec_dict field of
             Inl e \<Rightarrow> Inl e
           | Inr d \<Rightarrow>
               if ''analytical_type'' \<notin> set (map fst d) then Inl AttributeError
               else (case Field_init d of
                       Inl e \<Rightarrow> Inl e
                     | Inr f \<Rightarrow> Inr (alloc_field h f))))"

text \<open>
  \<open>append\<close>: every exception is raised before the first of the three container updates,
  so \<open>Inl\<close> leaves the store as it was.
\<close>

definition FieldList_append :: "heap \<Rightarrow> addr \<Rightarrow> field_spec \<Rightarrow> error + heap" where
  "FieldList_append h self field =
     (case new_field h field of
        Inl e \<Rightarrow> Inl e
      | Inr (h1, nf) \<Rightarrow>
          (let l = get_list h1 self; n = name (get_field h1 nf) in
           Inr (h1\<lparr>list_objs := (list_objs h1)(self \<mapsto>
                  l\<lparr>priv_fields := priv_fields l @ [nf],
                    priv_field_dict := (priv_field_dict l)(n \<mapsto> nf),
                    priv_field_names := priv_field_names l @ [n]\<rparr>)\<rparr>)))"

fun append_all :: "heap \<Rightarrow> addr \<Rightarrow> field_spec list \<Rightarrow> error + heap" where
  "append_all h self [] = Inr h"
| "append_all h self (field # rest) =
     (case FieldList_append h self field of
        Inl e \<Rightarrow> Inl e
      | Inr h1 \<Rightarrow> append_all h1 self rest)"

text \<open>\<open>FieldList(fields)\<close>; \<open>None\<close> and the empty list both skip the loop.\<close>

definition FieldList_init :: "heap \<Rightarrow> field_spec list \<Rightarrow> error + (heap \<times> addr)" where
  "FieldList_init h field_specs =
     (let (h1, self) = alloc_list h \<lparr>priv_fields = [], priv_field_dict = Map.empty, priv_field_names = []\<rparr>
      in case append_all h1 self field_specs of
           Inl e \<Rightarrow> Inl e
         | Inr h2 \<Rightarrow> Inr (h2, self))"

text \<open>What \<open>field_name\<close> accepts: a string, a Field object, or an object without \<open>name\<close>.\<close>

datatype field_ref = RefStr string | RefField addr | RefOther

definition field_name :: "heap \<Rightarrow> field_ref \<Rightarrow> error + string" where
  "field_name h field =
     (case field of
        RefStr s \<Rightarrow> Inr s
      | RefField a \<Rightarrow> Inr (name (get_field h a))
      | RefOther \<Rightarrow> Inl AttributeError)"

text \<open>\<open>list.index(x)\<close>: the first position holding \<open>x\<close>; \<open>None\<close> is its ValueError.\<close>

fun list_index :: "'a list \<Rightarrow> 'a \<Rightarrow> nat option" where
  "list_index [] x = None"
| "list_index (y # ys) x = (if y = x then Some 0 else map_option Suc (list_index ys x))"

text \<open>\<open>index\<close> called with a string, as the stream operators call it.\<close>

definition index_name :: "FieldList \<Rightarrow> string \<Rightarrow> error + nat" where
  "index_name l n = (case list_index (priv_field_names l) n of None \<Rightarrow> Inl KeyError | Some i \<Rightarrow> Inr i)"

definition FieldList_index :: "heap \<Rightarrow> addr \<Rightarrow> field_ref \<Rightarrow> error + nat" where
  "FieldList_index h self field =
     (case field_name h field of
        Inl e \<Rightarrow> Inl e
      | Inr n \<Rightarrow> index_name (get_list h self) n)"

text \<open>\<open>fields(names)\<close>: without names (or with an empty list of names) all the fields.\<close>

fun lookup_fields :: "(string \<rightharpoonup> addr) \<Rightarrow> string list \<Rightarrow> error + addr list" where
  "lookup_fields d [] = Inr []"
| "lookup_fields d (n # ns) =
     (case d n of
        None \<Rightarrow> Inl KeyError
      | Some a \<Rightarrow> (case lookup_fields d ns of Inl e \<Rightarrow> Inl e | Inr as \<Rightarrow> Inr (a # as)))"

definition FieldList_fields :: "heap \<Rightarrow> addr \<Rightarrow> string list option \<Rightarrow> error + addr list" where
  "FieldList_fields h self names =
     (case names of
        None \<Rightarrow> Inr (priv_fields (get_list h self))
      | Some ns \<Rightarrow> if ns = [] then Inr (priv_fields (get_list h self))
                   else lookup_fields (priv_field_dict (get_list h self)) ns)"

text \<open>List item assignment and deletion at a Python index.\<close>

definition py_setitem :: "'a list \<Rightarrow> int \<Rightarrow> 'a \<Rightarrow> error + 'a list" where
  "py_setitem xs i v =
     (if 0 \<le> i \<and> i < int (length xs) then Inr (xs[nat i := v])
      else if i < 0 \<and> - int (length xs) \<le> i then Inr (xs[nat (int (length xs) + i) := v])
      else Inl IndexError)"

definition py_delitem :: "'a list \<Rightarrow> int \<Rightarrow> error + 'a list" where
  "py_delitem xs i =
     (if 0 \<le> i \<and> i < int (length xs) then Inr (take (nat i) xs @ drop (Suc (nat i)) xs)
      else if i < 0 \<and> - int (length xs) \<le> i
      then Inr (take (nat (int (length xs) + i)) xs @ drop (Suc (nat (int (length xs) + i))) xs)
      else Inl IndexError)"

text \<open>
  \<open>__setitem__\<close> and \<open>__delitem__\<close>. The read \<open>self._fields[index]\<close> and the deletion from
  \<open>_field_dict\<close> can raise before anything is changed. The two lists have the same
  length in every FieldList built by these methods, so the later list updates do not
  raise once the read has succeeded; their error branches are kept as the code has them.
\<close>

definition FieldList_setitem :: "heap \<Rightarrow> addr \<Rightarrow> int \<Rightarrow> addr \<Rightarrow> error + heap" where
  "FieldList_setitem h self index nf =
     (let l = get_list h self in
      case py_getitem (priv_fields l) index of
        Inl e \<Rightarrow> Inl e
      | Inr field \<Rightarrow>
          if priv_field_dict l (name (get_field h field)) = None then Inl KeyError
          else (case py_setitem (priv_fields l) index nf of
                  Inl e \<Rightarrow> Inl e
                | Inr fs \<Rightarrow>
                    (case py_setitem (priv_field_names l) index (name (get_field h nf)) of
                       Inl e \<Rightarrow> Inl e
                     | Inr ns \<Rightarrow>
                         Inr (h\<lparr>list_objs := (list_objs h)(self \<mapsto>
                                \<lparr>priv_fields = fs,
                                 priv_field_dict =
                                   ((priv_field_dict l)(name (get_field h field) := None))
                                     (name (get_field h nf) \<mapsto> nf),
                                 priv_field_names = ns\<rparr>)\<rparr>))))"

definition FieldList_delitem :: "heap \<Rightarrow> addr \<Rightarrow> int \<Rightarrow> error + heap" where
  "FieldList_delitem h self index =
     (let l = get_list h self in
      case py_getitem (priv_fields l) index of
        Inl e \<Rightarrow> Inl e
      | Inr field \<Rightarrow>
          if priv_field_dict l (name (get_field h field)) = None then Inl KeyError
          else (case py_delitem (priv_fields l) index of
                  Inl e \<Rightarrow> Inl e
                | Inr fs \<Rightarrow>
                    (case py_delitem (priv_field_names l) index of
                       Inl e \<Rightarrow> Inl e
                     | Inr ns \<Rightarrow>
                         Inr (h\<lparr>list_objs := (list_objs h)(self \<mapsto>
                                \<lparr>priv_fields = fs,
                                 priv_field_dict = (priv_field_dict l)(name (get_field h field) := None),
                                 priv_field_names = ns\<rparr>)\<rparr>))))"

text \<open>\<open>copy(fields)\<close>: a new FieldList over the same Field objects.\<close>

definition FieldList_copy :: "heap \<Rightarrow> addr \<Rightarrow> string list option \<Rightarrow> error + (heap \<times> addr)" where
  "FieldList_copy h self subset_names =
     (case subset_names of
        Some ns \<Rightarrow>
          (case FieldList_fields h self (Some ns) of
             Inl e \<Rightarrow> Inl e
           | Inr copy_fields \<Rightarrow> FieldList_init h (map SpecField copy_fields))
      | None \<Rightarrow> FieldList_init h (map SpecField (priv_fields (get_list h self))))"

text \<open>
  What a caller can observe of a FieldList: the Fields at its positions (\<open>len\<close>,
  \<open>__getitem__\<close>, iteration), its names (\<open>names\<close>, \<open>index\<close>) and the Fields reached by name
  (\<open>field\<close>, \<open>fields\<close>), each Field with its current attribute values.
\<close>

definition observe :: "heap \<Rightarrow> addr \<Rightarrow> Field list \<times> string list \<times> (string \<rightharpoonup> Field)" where
  "observe h self =
     (map (get_field h) (priv_fields (get_list h self)),
      priv_field_names (get_list h self),
      (\<lambda>n. map_option (get_field h) (priv_field_dict (get_list h self) n)))"

section \<open>Mutations of a FieldList and well-formed stores\<close>

text \<open>The three methods that change the structure of a FieldList in place.\<close>

datatype mutation = Append field_spec | SetItem int addr | DelItem int

definition mutate :: "heap \<Rightarrow> addr \<Rightarrow> mutation \<Rightarrow> error + heap" where
  "mutate h self m =
     (case m of
        Append field \<Rightarrow> FieldList_append h self field
      | SetItem index nf \<Rightarrow> FieldList_setitem h self index nf
      | DelItem index \<Rightarrow> FieldList_delitem h self index)"

text \<open>
  In a store built by allocation, every FieldList and every Field object that a
  FieldList refers to has an address below the next free one.
\<close>

definition wf_heap :: "heap \<Rightarrow> bool" where
  "wf_heap h =
     (\<forall>a l. list_objs h a = Some l \<longrightarrow>
        a < next_addr h
        \<and> (\<forall>x\<in>set (priv_fields l). x < next_addr h)
        \<and> (\<forall>n x. priv_field_dict l n = Some x \<longrightarrow> x < next_addr h))"

section \<open>fields.py: FieldMap\<close>

record FieldMap =
  rename :: "(string \<times> string) list"
  drop :: "string list"

text \<open>\<open>FieldMap(rename, drop)\<close>: a missing or empty argument becomes \<open>{}\<close> or \<open>[]\<close>.\<close>

definition FieldMap_init :: "(string \<times> string) list option \<Rightarrow> string list option \<Rightarrow> FieldMap" where
  "FieldMap_init rename_arg drop_arg =
     \<lparr>rename = (case rename_arg of None \<Rightarrow> [] | Some r \<Rightarrow> r),
      drop = (case drop_arg of None \<Rightarrow> [] | Some d \<Rightarrow> d)\<rparr>"

text \<open>
  \<open>copy.copy(field)\<close> of Python's standard library on a Field object: a new object with
  the same attribute values.
\<close>

definition copy_copy :: "heap \<Rightarrow> addr \<Rightarrow> heap \<times> addr" where
  "copy_copy h a = alloc_field h (get_field h a)"

text \<open>
  \<open>FieldMap.map\<close> reads the global name \<open>copy\<close> of the module. The value bound to that
  name is a parameter of the model: \<open>Some c\<close> when the name is bound to a module whose
  \<open>copy\<close> function is \<open>c\<close>, \<open>None\<close> when the name is unbound, and reading it raises
  NameError. fields.py has no import statement and no assignment to \<open>copy\<close>, so the
  module as written runs with \<open>None\<close>.
\<close>

type_synonym copy_binding = "(heap \<Rightarrow> addr \<Rightarrow> heap \<times> addr) option"

definition fields_module_copy :: copy_binding where
  "fields_module_copy = None"

text \<open>
  The loop of \<open>map\<close> over the Field objects of the input list; \<open>output_fields\<close> is the
  address of the new list. The renamed copy is made before the drop test.
\<close>

fun map_loop :: "copy_binding \<Rightarrow> FieldMap \<Rightarrow> heap \<Rightarrow> addr \<Rightarrow> addr list \<Rightarrow> error + heap" where
  "map_loop cp fm h output_fields [] = Inr h"
| "map_loop cp fm h output_fields (field # rest) =
     (case (if name (get_field h field) \<in> set (map fst (rename fm))
            then (case cp of
                    None \<Rightarrow> Inl NameError
                  | Some c \<Rightarrow>
                      Inr (Field_setattr (fst (c h field)) (snd (c h field))
                             (\<lambda>f. f\<lparr>name := the (map_of (rename fm) (name (get_field h field)))\<rparr>),
                           snd (c h field)))
            else Inr (h, field)) of
        Inl e \<Rightarrow> Inl e
      | Inr (h1, nf) \<Rightarrow>
          if name (get_field h1 field) \<notin> set (drop fm)
          then (case FieldList_append h1 output_fields (SpecField nf) of
                  Inl e \<Rightarrow> Inl e
                | Inr h2 \<Rightarrow> map_loop cp fm h2 output_fields rest)
          else map_loop cp fm h1 output_fields rest)"

definition FieldMap_map :: "copy_binding \<Rightarrow> heap \<Rightarrow> FieldMap \<Rightarrow> addr \<Rightarrow> error + (heap \<times> addr)" where
  "FieldMap_map cp h fm field_list =
     (case FieldList_init h [] of
        Inl e \<Rightarrow> Inl e
      | Inr (h0, output_fields) \<Rightarrow>
          (case map_loop cp fm h0 output_fields (priv_fields (get_list h0 field_list)) of
             Inl e \<Rightarrow> Inl e
           | Inr h1 \<Rightarrow> Inr (h1, output_fields)))"

text \<open>
  The output schema in the words of the specification: the fields whose name is not in
  the drop set, in input order, each with its name replaced when the rename mapping has
  it and all other attributes as they are.
\<close>

definition mapped_fields :: "FieldMap \<Rightarrow> Field list \<Rightarrow> Field list" where
  "mapped_fields fm fs =
     map (\<lambda>f. case map_of (rename fm) (name f) of None \<Rightarrow> f | Some new_name \<Rightarrow> f\<lparr>name := new_name\<rparr>)
       (filter (\<lambda>f. name f \<notin> set (drop fm)) fs)"

section \<open>iterator.py: left_inner_join\<close>

text \<open>\<open>dict((row[join[1]], row) for row in detail)\<close>: a later row replaces an earlier one
  with the same key.\<close>

fun detail_dict :: "row list \<Rightarrow> int \<Rightarrow> (val \<rightharpoonup> row) \<Rightarrow> error + (val \<rightharpoonup> row)" where
  "detail_dict [] i d = Inr d"
| "detail_dict (r # rs) i d =
     (case py_getitem r i of
        Inl e \<Rightarrow> Inl e
      | Inr k \<Rightarrow> detail_dict rs i (d(k \<mapsto> r)))"

text \<open>The first loop: one dictionary per detail, in the order of \<open>zip(details, joins)\<close>.\<close>

fun build_maps :: "(row list \<times> (int \<times> int)) list \<Rightarrow> error + (val \<rightharpoonup> row) list" where
  "build_maps [] = Inr []"
| "build_maps ((detail, join) # rest) =
     (case detail_dict detail (snd join) Map.empty of
        Inl e \<Rightarrow> Inl e
      | Inr d \<Rightarrow> (case build_maps rest of Inl e \<Rightarrow> Inl e | Inr ds \<Rightarrow> Inr (d # ds)))"

text \<open>
  The inner loop over \<open>zip(maps, joins)\<close> for one master row. \<open>row\<close> is the output row
  built so far. \<open>Inr None\<close> is the \<open>break\<close> with \<open>match = False\<close>; the index error of
  \<open>master_row[join[0]]\<close> is outside the \<open>try\<close> and propagates.
\<close>

fun join_row :: "row \<Rightarrow> row \<Rightarrow> ((val \<rightharpoonup> row) \<times> (int \<times> int)) list \<Rightarrow> error + row option" where
  "join_row master_row row [] = Inr (Some row)"
| "join_row master_row row ((detail, join) # rest) =
     (case py_getitem master_row (fst join) of
        Inl e \<Rightarrow> Inl e
      | Inr key \<Rightarrow>
          (case detail key of
             None \<Rightarrow> Inr None
           | Some detail_row \<Rightarrow> join_row master_row (row @ detail_row) rest))"

fun join_master :: "row list \<Rightarrow> ((val \<rightharpoonup> row) \<times> (int \<times> int)) list \<Rightarrow> row gen" where
  "join_master [] mj = ([], None)"
| "join_master (master_row # rest) mj =
     (case join_row master_row master_row mj of
        Inl e \<Rightarrow> ([], Some e)
      | Inr None \<Rightarrow> join_master rest mj
      | Inr (Some row) \<Rightarrow> (row # fst (join_master rest mj), snd (join_master rest mj)))"

definition left_inner_join :: "row list \<Rightarrow> row list list \<Rightarrow> (int \<times> int) list \<Rightarrow> row gen" where
  "left_inner_join master details joins =
     (if details = [] then ([], Some ArgumentError)
      else if length details \<noteq> length joins then ([], Some ArgumentError)
      else case build_maps (zip details joins) of
             Inl e \<Rightarrow> ([], Some e)
           | Inr maps \<Rightarrow> join_master master (zip maps joins))"

text \<open>
  The join in the words of the specification. The detail map of a detail stream sends a
  key to the last row carrying it; a master row matches when every detail map has an
  entry for the row's key of that join; the emitted row is the master row followed by
  the matched detail rows in the order of the details.
\<close>

definition key_at :: "row \<Rightarrow> int \<Rightarrow> val" where
  "key_at r i = (case py_getitem r i of Inr k \<Rightarrow> k | Inl e \<Rightarrow> VNone)"

definition has_index :: "row \<Rightarrow> int \<Rightarrow> bool" where
  "has_index r i = (case py_getitem r i of Inr k \<Rightarrow> True | Inl e \<Rightarrow> False)"

definition detail_map :: "row list \<Rightarrow> int \<Rightarrow> (val \<rightharpoonup> row)" where
  "detail_map detail i = map_of (rev (map (\<lambda>r. (key_at r i, r)) detail))"

definition detail_maps :: "row list list \<Rightarrow> (int \<times> int) list \<Rightarrow> (val \<rightharpoonup> row) list" where
  "detail_maps details joins = map (\<lambda>(detail, join). detail_map detail (snd join)) (zip details joins)"

definition all_match :: "(val \<rightharpoonup> row) list \<Rightarrow> (int \<times> int) list \<Rightarrow> row \<Rightarrow> bool" where
  "all_match maps joins master_row =
     list_all (\<lambda>(d, join). d (key_at master_row (fst join)) \<noteq> None) (zip maps joins)"

definition extended_row :: "(val \<rightharpoonup> row) list \<Rightarrow> (int \<times> int) list \<Rightarrow> row \<Rightarrow> row" where
  "extended_row maps joins master_row =
     master_row @ concat (map (\<lambda>(d, join). the (d (key_at master_row (fst join)))) (zip maps joins))"

section \<open>iterator.py: distinct\<close>

text \<open>
  \<open>distinct(iterator, fields, keys, is_sorted)\<close> first builds
  \<open>row_filter = FieldFilter(keep=keys).row_filter(fields)\<close>. \<open>FieldFilter\<close> comes from
  the module \<open>metadata\<close>, which is not among the sources, so the model takes the outcome
  of that line as its parameter \<open>row_filter\<close>: either the exception raised while the
  filter is built, or the callable that sends a row to its key tuple and may itself
  raise (a row too short for a key position, an unhashable key). The parameter stands
  for \<open>fields\<close> and \<open>keys\<close> together. The input iterator is a generator run of its own:
  rows, then exhaustion or an exception.
\<close>

text \<open>
  The loop of the unsorted branch; \<open>distinct_values\<close> is the set of key tuples seen so
  far and \<open>stop\<close> is how the input iterator ends.
\<close>

fun distinct_unsorted ::
  "('r \<Rightarrow> error + 'k) \<Rightarrow> 'k set \<Rightarrow> 'r list \<Rightarrow> error option \<Rightarrow> 'r gen" where
  "distinct_unsorted row_filter distinct_values [] stop = ([], stop)"
| "distinct_unsorted row_filter distinct_values (row # rest) stop =
     (case row_filter row of
        Inl e \<Rightarrow> ([], Some e)
      | Inr key_tuple \<Rightarrow>
          if key_tuple \<notin> distinct_values
          then (row # fst (distinct_unsorted row_filter (insert key_tuple distinct_values) rest stop),
                snd (distinct_unsorted row_filter (insert key_tuple distinct_values) rest stop))
          else distinct_unsorted row_filter distinct_values rest stop)"

text \<open>
  The sorted branch binds its loop variable to \<open>value\<close> and then reads \<open>row\<close>, a local
  name that is assigned only in the other branch: its first iteration raises.
\<close>

definition distinct_iter ::
  "error + ('r \<Rightarrow> error + 'k) \<Rightarrow> 'r gen \<Rightarrow> bool \<Rightarrow> 'r gen" where
  "distinct_iter row_filter iterator is_sorted =
     (case row_filter of
        Inl e \<Rightarrow> ([], Some e)
      | Inr rf \<Rightarrow>
          if is_sorted
          then (case fst iterator of
                  [] \<Rightarrow> ([], snd iterator)
                | value # rest \<Rightarrow> ([], Some UnboundLocalError))
          else distinct_unsorted rf {} (fst iterator) (snd iterator))"

text \<open>
  The first-seen rows in the words of the specification: the rows, in input order, whose
  key tuple differs from the key tuple of every earlier row.
\<close>

definition first_seen :: "('r \<Rightarrow> 'k) \<Rightarrow> 'r list \<Rightarrow> 'r list" where
  "first_seen key rows =
     map (\<lambda>i. rows ! i) (filter (\<lambda>i. \<forall>j<i. key (rows ! j) \<noteq> key (rows ! i)) [0..<length rows])"

section \<open>iterator.py: transformations\<close>

text \<open>
  The stream operators receive the FieldList \<open>fields\<close> and call \<open>fields.index\<close> with a
  name; the model passes the FieldList's state and uses \<open>index_name\<close>.
\<close>

text \<open>
  Modelled from the spec: \<open>FieldList.mask\<close> is called by the stream operators and is
  not defined in fields.py. The specification has it as
  "\<open>mask(subset_of_field_refs) -> boolean_sequence\<close> aligned to full FieldList order,
  true where a field is in the subset".
\<close>

definition mask :: "FieldList \<Rightarrow> string list \<Rightarrow> bool list" where
  "mask fl subset_fields = map (\<lambda>n. n \<in> set subset_fields) (priv_field_names fl)"

text \<open>\<open>itertools.compress(data, selectors)\<close>.\<close>

definition compress :: "'a list \<Rightarrow> bool list \<Rightarrow> 'a list" where
  "compress data selectors = map fst (filter snd (zip data selectors))"

text \<open>
  A user function, called with positional arguments and keyword arguments; it may
  raise. The \<open>source\<close> of a rule is a field name, a list of field names, or \<open>None\<close>
  when the rule binds the key \<open>source\<close> to \<open>None\<close>.
\<close>

type_synonym py_function = "val list \<Rightarrow> (string \<times> val) list \<Rightarrow> error + val"

datatype source = SrcName string | SrcList "string list" | SrcNone

text \<open>
  The four transformation classes with the attributes their \<open>__init__\<close> stores:
  \<open>source_index\<close> and \<open>missing_value\<close>; \<open>value\<close>; \<open>source_index\<close>, \<open>missing_value\<close> and
  \<open>mapping\<close>; \<open>function\<close>, \<open>source_index\<close>, \<open>mask\<close>, \<open>args\<close> and \<open>missing_value\<close>.
\<close>

datatype transformation =
    CopyValueTransformation nat val
  | SetValueTransformation val
  | MapTransformation nat val "(val \<rightharpoonup> val) option"
  | FunctionTransformation "py_function option" "nat option" "bool list option" "(string \<times> val) list" val

text \<open>
  \<open>fields.index(source)\<close>: \<open>field_name\<close> reads the attribute \<open>name\<close> of anything that is
  no string, and neither a list of names nor \<open>None\<close> has it.
\<close>

definition source_index :: "FieldList \<Rightarrow> source \<Rightarrow> error + nat" where
  "source_index fl src =
     (case src of
        SrcName s \<Rightarrow> index_name fl s
      | SrcList ns \<Rightarrow> Inl AttributeError
      | SrcNone \<Rightarrow> Inl AttributeError)"

definition CopyValueTransformation_init :: "FieldList \<Rightarrow> source \<Rightarrow> val \<Rightarrow> error + transformation" where
  "CopyValueTransformation_init fl src missing_value =
     (case source_index fl src of Inl e \<Rightarrow> Inl e | Inr i \<Rightarrow> Inr (CopyValueTransformation i missing_value))"

definition MapTransformation_init ::
  "FieldList \<Rightarrow> (val \<rightharpoonup> val) option \<Rightarrow> source \<Rightarrow> val \<Rightarrow> error + transformation" where
  "MapTransformation_init fl mapping src missing_value =
     (case source_index fl src of Inl e \<Rightarrow> Inl e | Inr i \<Rightarrow> Inr (MapTransformation i missing_value mapping))"

text \<open>
  \<open>FunctionTransformation.__init__\<close>. A source that is no string goes to \<open>fields.mask\<close>.
  The specification defines \<open>mask\<close> on a subset of field references only; for \<open>None\<close>,
  which is no collection of references, the model takes the call to raise TypeError,
  as iterating over \<open>None\<close> does.
\<close>

definition FunctionTransformation_init ::
  "FieldList \<Rightarrow> py_function option \<Rightarrow> source \<Rightarrow> (string \<times> val) list option \<Rightarrow> val \<Rightarrow> error + transformation" where
  "FunctionTransformation_init fl function src args missing_value =
     (case src of
        SrcName s \<Rightarrow>
          (case index_name fl s of
             Inl e \<Rightarrow> Inl e
           | Inr i \<Rightarrow> Inr (FunctionTransformation function (Some i) None
                              (case args of None \<Rightarrow> [] | Some a \<Rightarrow> a) missing_value))
      | SrcList ns \<Rightarrow>
          Inr (FunctionTransformation function None (Some (mask fl ns))
                 (case args of None \<Rightarrow> [] | Some a \<Rightarrow> a) missing_value)
      | SrcNone \<Rightarrow> Inl TypeError)"

text \<open>\<open>result if result is not None else missing_value\<close>.\<close>

definition or_missing :: "val \<Rightarrow> val \<Rightarrow> val" where
  "or_missing result missing_value = (if result \<noteq> VNone then result else missing_value)"

text \<open>Calling a value that may be \<open>None\<close>.\<close>

definition call_function :: "py_function option \<Rightarrow> val list \<Rightarrow> (string \<times> val) list \<Rightarrow> error + val" where
  "call_function function pos kw = (case function of None \<Rightarrow> Inl TypeError | Some f \<Rightarrow> f pos kw)"

text \<open>
  \<open>__call__\<close> of the four classes. In \<open>FunctionTransformation\<close> the test
  \<open>if self.source_index:\<close> is a truth test: it fails for \<open>None\<close> and for the index 0, and
  the other branch then compresses the row with \<open>self.mask\<close>, which is \<open>None\<close> when the
  source was a single name.
\<close>

fun call_transformation :: "transformation \<Rightarrow> row \<Rightarrow> error + val" where
  "call_transformation (CopyValueTransformation i missing_value) row =
     (case py_getitem row (int i) of
        Inl e \<Rightarrow> Inl e
      | Inr result \<Rightarrow> Inr (or_missing result missing_value))"
| "call_transformation (SetValueTransformation v) row = Inr v"
| "call_transformation (MapTransformation i missing_value mapping) row =
     (case mapping of
        None \<Rightarrow> Inl AttributeError
      | Some m \<Rightarrow>
          (case py_getitem row (int i) of
             Inl e \<Rightarrow> Inl e
           | Inr k \<Rightarrow> Inr (case m k of None \<Rightarrow> missing_value | Some v \<Rightarrow> v)))"
| "call_transformation (FunctionTransformation function si msk args missing_value) row =
     (case (if si \<noteq> None \<and> si \<noteq> Some 0
            then (case py_getitem row (int (the si)) of
                    Inl e \<Rightarrow> Inl e
                  | Inr v \<Rightarrow> call_function function [v] args)
            else (case msk of
                    None \<Rightarrow> Inl TypeError
                  | Some m \<Rightarrow> call_function function (compress row m) args)) of
        Inl e \<Rightarrow> Inl e
      | Inr result \<Rightarrow> Inr (or_missing result missing_value))"

text \<open>
  A rule dictionary, read only through \<open>desc.get\<close>. For every key but \<open>source\<close> an
  absent key and a key bound to \<open>None\<close> read the same. The source is read with
  \<open>desc.get("source", target)\<close>: \<open>desc_source\<close> is \<open>None\<close> for an absent key, which reads
  as the target, and \<open>Some SrcNone\<close> for a key bound to \<open>None\<close>, which reads as \<open>None\<close>.
  A transformation entry is \<open>(target,)\<close> or \<open>(target, rule)\<close> with the rule \<open>None\<close>, a
  string or a dictionary.
\<close>

record desc =
  desc_action :: "string option"
  desc_source :: "source option"
  desc_function :: "py_function option"
  desc_args :: "(string \<times> val) list option"
  desc_map :: "(val \<rightharpoonup> val) option"
  desc_missing_value :: val
  desc_value :: val

datatype rule = RuleNone | RuleStr string | RuleDict desc

datatype entry = Entry1 string | Entry2 string rule

text \<open>
  \<open>out[target] = v\<close> on an OrderedDict kept as an association list: an existing key
  keeps its place, a new key goes to the end.
\<close>

definition od_set :: "(string \<times> 'v) list \<Rightarrow> string \<Rightarrow> 'v \<Rightarrow> (string \<times> 'v) list" where
  "od_set out k v =
     (if k \<in> set (map fst out) then map (\<lambda>(k', v'). if k' = k then (k', v) else (k', v')) out
      else out @ [(k, v)])"

text \<open>
  One pass of the loop body of \<open>compile_transformation\<close>: the transformation to store
  under the target, or \<open>None\<close> when no branch of the \<open>if\<close>/\<open>elif\<close> chain on the action
  applies (the chain has no \<open>else\<close>).
\<close>

definition compile_entry :: "entry \<Rightarrow> FieldList \<Rightarrow> error + (string \<times> transformation option)" where
  "compile_entry t fl =
     (case t of
        Entry1 target \<Rightarrow>
          (case CopyValueTransformation_init fl (SrcName target) VNone of
             Inl e \<Rightarrow> Inl e | Inr tr \<Rightarrow> Inr (target, Some tr))
      | Entry2 target RuleNone \<Rightarrow>
          (case CopyValueTransformation_init fl (SrcName target) VNone of
             Inl e \<Rightarrow> Inl e | Inr tr \<Rightarrow> Inr (target, Some tr))
      | Entry2 target (RuleStr s) \<Rightarrow>
          (case CopyValueTransformation_init fl (SrcName s) VNone of
             Inl e \<Rightarrow> Inl e | Inr tr \<Rightarrow> Inr (target, Some tr))
      | Entry2 target (RuleDict d) \<Rightarrow>
          (let action = desc_action d;
               src = (case desc_source d of None \<Rightarrow> SrcName target | Some s \<Rightarrow> s)
           in if action = None \<or> action = Some [] \<or> action = Some ''copy''
              then (case CopyValueTransformation_init fl src (desc_missing_value d) of
                      Inl e \<Rightarrow> Inl e | Inr tr \<Rightarrow> Inr (target, Some tr))
              else if action = Some ''function''
              then (case FunctionTransformation_init fl (desc_function d) src (desc_args d)
                           (desc_missing_value d) of
                      Inl e \<Rightarrow> Inl e | Inr tr \<Rightarrow> Inr (target, Some tr))
              else if action = Some ''map''
              then (case MapTransformation_init fl (desc_map d) src (desc_missing_value d) of
                      Inl e \<Rightarrow> Inl e | Inr tr \<Rightarrow> Inr (target, Some tr))
              else if action = Some ''set''
              then Inr (target, Some (SetValueTransformation (desc_value d)))
              else Inr (target, None)))"

fun compile_loop ::
  "entry list \<Rightarrow> FieldList \<Rightarrow> (string \<times> transformation) list \<Rightarrow> error + (string \<times> transformation) list" where
  "compile_loop [] fl out = Inr out"
| "compile_loop (t # rest) fl out =
     (case compile_entry t fl of
        Inl e \<Rightarrow> Inl e
      | Inr (target, None) \<Rightarrow> compile_loop rest fl out
      | Inr (target, Some tr) \<Rightarrow> compile_loop rest fl (od_set out target tr))"

text \<open>
  \<open>compile_transformation\<close> returns \<open>functools.partial(transform, out.values())\<close>; the
  model returns the bound list \<open>out.values()\<close>, and the compiled mapper applied to a row
  is \<open>transform\<close> of that list and the row.
\<close>

definition compile_transformation :: "entry list \<Rightarrow> FieldList \<Rightarrow> error + transformation list" where
  "compile_transformation transformation fl =
     (case compile_loop transformation fl [] of
        Inl e \<Rightarrow> Inl e
      | Inr out \<Rightarrow> Inr (map snd out))"

fun transform :: "transformation list \<Rightarrow> row \<Rightarrow> error + row" where
  "transform [] row = Inr []"
| "transform (tr # rest) row =
     (case call_transformation tr row of
        Inl e \<Rightarrow> Inl e
      | Inr v \<Rightarrow> (case transform rest row of Inl e \<Rightarrow> Inl e | Inr vs \<Rightarrow> Inr (v # vs)))"

text \<open>The compiled mapper applied to a row.\<close>

definition compiled_mapper :: "entry list \<Rightarrow> FieldList \<Rightarrow> row \<Rightarrow> error + row" where
  "compiled_mapper transformation fl row =
     (case compile_transformation transformation fl of
        Inl e \<Rightarrow> Inl e
      | Inr ts \<Rightarrow> transform ts row)"

text \<open>The targets of a transformation list, and the entries that no branch handles.\<close>

definition entry_target :: "entry \<Rightarrow> string" where
  "entry_target t = (case t of Entry1 target \<Rightarrow> target | Entry2 target r \<Rightarrow> target)"

definition unknown_action :: "entry \<Rightarrow> bool" where
  "unknown_action t =
     (case t of
        Entry2 target (RuleDict d) \<Rightarrow>
          (case desc_action d of
             None \<Rightarrow> False
           | Some a \<Rightarrow> a \<noteq> [] \<and> a \<notin> set [''copy'', ''function'', ''map'', ''set''])
      | _ \<Rightarrow> False)"

section \<open>iterator.py: aggregate\<close>

text \<open>
  Python 2 arithmetic on the modelled values: \<open>+\<close> adds integers and concatenates two
  strings or two tuples; \<open>/\<close> on integers is floor division; every other combination is
  a TypeError.
\<close>

fun py_add :: "val \<Rightarrow> val \<Rightarrow> error + val" where
  "py_add (VInt a) (VInt b) = Inr (VInt (a + b))"
| "py_add (VStr a) (VStr b) = Inr (VStr (a @ b))"
| "py_add (VTuple a) (VTuple b) = Inr (VTuple (a @ b))"
| "py_add a b = Inl TypeError"

fun py_div :: "val \<Rightarrow> val \<Rightarrow> error + val" where
  "py_div (VInt a) (VInt b) = (if b = 0 then Inl ZeroDivisionError else Inr (VInt (a div b)))"
| "py_div a b = Inl TypeError"

text \<open>
  Python 2 orders values of different types: \<open>None\<close> is below everything, numbers are
  below the other types, and a string is below a tuple. Strings compare bytewise and
  tuples compare at their first differing position.
\<close>

fun py_lt :: "val \<Rightarrow> val \<Rightarrow> bool" and py_lt_list :: "val list \<Rightarrow> val list \<Rightarrow> bool" where
  "py_lt VNone b = (b \<noteq> VNone)"
| "py_lt (VInt a) VNone = False"
| "py_lt (VInt a) (VInt b) = (a < b)"
| "py_lt (VInt a) (VStr b) = True"
| "py_lt (VInt a) (VTuple b) = True"
| "py_lt (VStr a) VNone = False"
| "py_lt (VStr a) (VInt b) = False"
| "py_lt (VStr a) (VStr b) = (a < b)"
| "py_lt (VStr a) (VTuple b) = True"
| "py_lt (VTuple a) VNone = False"
| "py_lt (VTuple a) (VInt b) = False"
| "py_lt (VTuple a) (VStr b) = False"
| "py_lt (VTuple a) (VTuple b) = py_lt_list a b"
| "py_lt_list [] ys = (ys \<noteq> [])"
| "py_lt_list (x # xs) [] = False"
| "py_lt_list (x # xs) (y # ys) = (if x = y then py_lt_list xs ys else py_lt x y)"

text \<open>The builtins \<open>min(a, b)\<close> and \<open>max(a, b)\<close>: the first argument wins a tie.\<close>

definition py_min :: "val \<Rightarrow> val \<Rightarrow> error + val" where
  "py_min a b = Inr (if py_lt b a then b else a)"

definition py_max :: "val \<Rightarrow> val \<Rightarrow> error + val" where
  "py_max a b = Inr (if py_lt a b then b else a)"

definition agg_sum :: "val \<Rightarrow> val \<Rightarrow> error + val" where
  "agg_sum a v = py_add a v"

text \<open>\<open>(a[0]+1, a[1]+value)\<close>; subscripting a value that is no tuple is a TypeError.\<close>

definition agg_average :: "val \<Rightarrow> val \<Rightarrow> error + val" where
  "agg_average a v =
     (case a of
        VTuple xs \<Rightarrow>
          (case py_getitem xs 0 of
             Inl e \<Rightarrow> Inl e
           | Inr a0 \<Rightarrow>
               (case py_add a0 (VInt 1) of
                  Inl e \<Rightarrow> Inl e
                | Inr c \<Rightarrow>
                    (case py_getitem xs 1 of
                       Inl e \<Rightarrow> Inl e
                     | Inr a1 \<Rightarrow>
                         (case py_add a1 v of Inl e \<Rightarrow> Inl e | Inr s \<Rightarrow> Inr (VTuple [c, s])))))
      | _ \<Rightarrow> Inl TypeError)"

text \<open>\<open>a[1]/a[0]\<close>.\<close>

definition agg_average_finalize :: "val \<Rightarrow> error + val" where
  "agg_average_finalize a =
     (case a of
        VTuple xs \<Rightarrow>
          (case py_getitem xs 1 of
             Inl e \<Rightarrow> Inl e
           | Inr a1 \<Rightarrow> (case py_getitem xs 0 of Inl e \<Rightarrow> Inl e | Inr a0 \<Rightarrow> py_div a1 a0))
      | _ \<Rightarrow> Inl TypeError)"

record AggregationFunction =
  func :: "val \<Rightarrow> val \<Rightarrow> error + val"
  start :: val
  finalize :: "(val \<Rightarrow> error + val) option"

definition aggregation_functions :: "string \<rightharpoonup> AggregationFunction" where
  "aggregation_functions =
     map_of
       [(''sum'', \<lparr>func = agg_sum, start = VInt 0, finalize = None\<rparr>),
        (''min'', \<lparr>func = py_min, start = VInt 0, finalize = None\<rparr>),
        (''max'', \<lparr>func = py_max, start = VInt 0, finalize = None\<rparr>),
        (''average'', \<lparr>func = agg_average, start = VTuple [VInt 0, VInt 0],
                       finalize = Some agg_average_finalize\<rparr>)]"

text \<open>
  A requested measure is a field name (or a Field, read through \<open>str\<close>) or a pair of a
  field name and the name of an aggregation function. \<open>measure_aggregates\<close> holds a
  triple of field name, position and function name for each of them.
\<close>

datatype measure = MeasureName string | MeasurePair string string

type_synonym measure_aggregate = "string \<times> nat \<times> string"

fun measure_aggregates_of :: "measure list \<Rightarrow> FieldList \<Rightarrow> error + measure_aggregate list" where
  "measure_aggregates_of [] fl = Inr []"
| "measure_aggregates_of (m # rest) fl =
     (case (case m of
              MeasureName field \<Rightarrow>
                (case index_name fl field of Inl e \<Rightarrow> Inl e | Inr i \<Rightarrow> Inr (field, i, ''sum''))
            | MeasurePair field function \<Rightarrow>
                (case index_name fl field of Inl e \<Rightarrow> Inl e | Inr i \<Rightarrow> Inr (field, i, function))) of
        Inl e \<Rightarrow> Inl e
      | Inr ma \<Rightarrow> (case measure_aggregates_of rest fl of Inl e \<Rightarrow> Inl e | Inr mas \<Rightarrow> Inr (ma # mas)))"

text \<open>The start values of a new aggregate record, one per measure.\<close>

fun start_values :: "measure_aggregate list \<Rightarrow> error + val list" where
  "start_values [] = Inr []"
| "start_values ((m, index, function) # rest) =
     (case aggregation_functions function of
        None \<Rightarrow> Inl KeyError
      | Some af \<Rightarrow> (case start_values rest of Inl e \<Rightarrow> Inl e | Inr vs \<Rightarrow> Inr (start af # vs)))"

definition new_key_aggregate :: "measure_aggregate list \<Rightarrow> bool \<Rightarrow> error + val list" where
  "new_key_aggregate mas include_count =
     (case start_values mas of
        Inl e \<Rightarrow> Inl e
      | Inr vs \<Rightarrow> Inr (if include_count then vs @ [VInt 0] else vs))"

text \<open>
  \<open>for i, (measure, index, function) in enumerate(measure_aggregates):
  key_aggregate[i] = func(key_aggregate[i], row[index])\<close>, from position \<open>i\<close> on.
\<close>

fun update_measures :: "nat \<Rightarrow> measure_aggregate list \<Rightarrow> val list \<Rightarrow> row \<Rightarrow> error + val list" where
  "update_measures i [] key_aggregate row = Inr key_aggregate"
| "update_measures i ((m, index, function) # rest) key_aggregate row =
     (case aggregation_functions function of
        None \<Rightarrow> Inl KeyError
      | Some af \<Rightarrow>
          (case py_getitem key_aggregate (int i) of
             Inl e \<Rightarrow> Inl e
           | Inr a \<Rightarrow>
               (case py_getitem row (int index) of
                  Inl e \<Rightarrow> Inl e
                | Inr v \<Rightarrow>
                    (case func af a v of
                       Inl e \<Rightarrow> Inl e
                     | Inr a' \<Rightarrow>
                         (case py_setitem key_aggregate (int i) a' of
                            Inl e \<Rightarrow> Inl e
                          | Inr ka \<Rightarrow> update_measures (Suc i) rest ka row)))))"

text \<open>\<open>key_aggregate[-1] += 1\<close>.\<close>

definition increment_count :: "val list \<Rightarrow> error + val list" where
  "increment_count key_aggregate =
     (case py_getitem key_aggregate (- 1) of
        Inl e \<Rightarrow> Inl e
      | Inr c \<Rightarrow> (case py_add c (VInt 1) of Inl e \<Rightarrow> Inl e | Inr c' \<Rightarrow> py_setitem key_aggregate (- 1) c'))"

definition update_key_aggregate :: "measure_aggregate list \<Rightarrow> bool \<Rightarrow> val list \<Rightarrow> row \<Rightarrow> error + val list" where
  "update_key_aggregate mas include_count key_aggregate row =
     (case update_measures 0 mas key_aggregate row of
        Inl e \<Rightarrow> Inl e
      | Inr ka \<Rightarrow> if include_count then increment_count ka else Inr ka)"

text \<open>
  The body of the loop over the input rows. The state is the set \<open>keys\<close>, kept as the
  list of its elements in the order they were added, and the dictionary \<open>aggregates\<close>.
\<close>

type_synonym agg_state = "row list \<times> (row \<rightharpoonup> val list)"

definition aggregate_row ::
  "measure_aggregate list \<Rightarrow> bool list \<Rightarrow> bool \<Rightarrow> agg_state \<Rightarrow> row \<Rightarrow> error + agg_state" where
  "aggregate_row mas key_selectors include_count st row =
     (let key = compress row key_selectors in
      case (case snd st key of
              Some ka \<Rightarrow> Inr (fst st, ka)
            | None \<Rightarrow>
                (case new_key_aggregate mas include_count of
                   Inl e \<Rightarrow> Inl e
                 | Inr ka \<Rightarrow> Inr (fst st @ [key], ka))) of
        Inl e \<Rightarrow> Inl e
      | Inr (keys, ka) \<Rightarrow>
          (case update_key_aggregate mas include_count ka row of
             Inl e \<Rightarrow> Inl e
           | Inr ka' \<Rightarrow> Inr (keys, (snd st)(key \<mapsto> ka'))))"

fun aggregate_rows ::
  "measure_aggregate list \<Rightarrow> bool list \<Rightarrow> bool \<Rightarrow> agg_state \<Rightarrow> row list \<Rightarrow> error + agg_state" where
  "aggregate_rows mas key_selectors include_count st [] = Inr st"
| "aggregate_rows mas key_selectors include_count st (row # rest) =
     (case aggregate_row mas key_selectors include_count st row of
        Inl e \<Rightarrow> Inl e
      | Inr st' \<Rightarrow> aggregate_rows mas key_selectors include_count st' rest)"

text \<open>The output loop: the finalized measures of one key, from position \<open>i\<close> on.\<close>

fun finalize_measures :: "nat \<Rightarrow> measure_aggregate list \<Rightarrow> val list \<Rightarrow> error + val list" where
  "finalize_measures i [] key_aggregate = Inr []"
| "finalize_measures i ((m, index, function) # rest) key_aggregate =
     (case py_getitem key_aggregate (int i) of
        Inl e \<Rightarrow> Inl e
      | Inr a \<Rightarrow>
          (case aggregation_functions function of
             None \<Rightarrow> Inl KeyError
           | Some af \<Rightarrow>
               (case (case finalize af of None \<Rightarrow> Inr a | Some fin \<Rightarrow> fin a) of
                  Inl e \<Rightarrow> Inl e
                | Inr v \<Rightarrow>
                    (case finalize_measures (Suc i) rest key_aggregate of
                       Inl e \<Rightarrow> Inl e
                     | Inr vs \<Rightarrow> Inr (v # vs)))))"

definition output_row ::
  "measure_aggregate list \<Rightarrow> bool \<Rightarrow> (row \<rightharpoonup> val list) \<Rightarrow> row \<Rightarrow> error + row" where
  "output_row mas include_count aggregates key =
     (case aggregates key of
        None \<Rightarrow> Inl KeyError
      | Some key_aggregate \<Rightarrow>
          (case finalize_measures 0 mas key_aggregate of
             Inl e \<Rightarrow> Inl e
           | Inr vs \<Rightarrow>
               if include_count
               then (case py_getitem key_aggregate (- 1) of
                       Inl e \<Rightarrow> Inl e
                     | Inr c \<Rightarrow> Inr (key @ vs @ [c]))
               else Inr (key @ vs)))"

fun output_rows ::
  "measure_aggregate list \<Rightarrow> bool \<Rightarrow> (row \<rightharpoonup> val list) \<Rightarrow> row list \<Rightarrow> row gen" where
  "output_rows mas include_count aggregates [] = ([], None)"
| "output_rows mas include_count aggregates (key # rest) =
     (case output_row mas include_count aggregates key of
        Inl e \<Rightarrow> ([], Some e)
      | Inr row \<Rightarrow> (row # fst (output_rows mas include_count aggregates rest),
                    snd (output_rows mas include_count aggregates rest)))"

text \<open>
  \<open>aggregate\<close>. Nothing is yielded before the whole input is consumed. Python iterates
  the set \<open>keys\<close> in an order of its own choosing; the model yields the rows in the order
  in which the keys were first seen, and statements about the output of the code are
  made about the rows as a multiset.
\<close>

definition aggregate ::
  "row list \<Rightarrow> FieldList \<Rightarrow> string list \<Rightarrow> measure list \<Rightarrow> bool \<Rightarrow> row gen" where
  "aggregate iterator fl key_fields measure_list include_count =
     (case measure_aggregates_of measure_list fl of
        Inl e \<Rightarrow> ([], Some e)
      | Inr mas \<Rightarrow>
          (case aggregate_rows mas (if key_fields \<noteq> [] then mask fl key_fields else [])
                  include_count ([], Map.empty) iterator of
             Inl e \<Rightarrow> ([], Some e)
           | Inr st \<Rightarrow> output_rows mas include_count (snd st) (fst st)))"

section \<open>The result of aggregate in the words of the specification\<close>

text \<open>
  The rows of a group are the input rows with the group's key, in arrival order. The
  value of a measure for a group is the measure's function folded from its start value
  over the values of the measure's field in the rows of the group, then finalized when
  the function has a finalizer. The output row of a group is its key values, then the
  values of the measures in request order, then the number of rows of the group when
  the count is requested.
\<close>

definition key_rows :: "bool list \<Rightarrow> row list \<Rightarrow> row \<Rightarrow> row list" where
  "key_rows key_selectors rows k = filter (\<lambda>r. compress r key_selectors = k) rows"

fun fold_values :: "(val \<Rightarrow> val \<Rightarrow> error + val) \<Rightarrow> val \<Rightarrow> val list \<Rightarrow> error + val" where
  "fold_values f a [] = Inr a"
| "fold_values f a (v # vs) = (case f a v of Inl e \<Rightarrow> Inl e | Inr a' \<Rightarrow> fold_values f a' vs)"

definition field_values :: "nat \<Rightarrow> row list \<Rightarrow> val list" where
  "field_values index rows = map (\<lambda>r. key_at r (int index)) rows"

definition finalized :: "AggregationFunction \<Rightarrow> val \<Rightarrow> error + val" where
  "finalized af a = (case finalize af of None \<Rightarrow> Inr a | Some fin \<Rightarrow> fin a)"

definition measure_value :: "measure_aggregate \<Rightarrow> row list \<Rightarrow> error + val" where
  "measure_value ma rows =
     (case aggregation_functions (snd (snd ma)) of
        None \<Rightarrow> Inl KeyError
      | Some af \<Rightarrow>
          (case fold_values (func af) (start af) (field_values (fst (snd ma)) rows) of
             Inl e \<Rightarrow> Inl e
           | Inr a \<Rightarrow> finalized af a))"

definition expected_row :: "measure_aggregate list \<Rightarrow> bool \<Rightarrow> row list \<Rightarrow> row \<Rightarrow> row" where
  "expected_row mas include_count rows k =
     k @ map (\<lambda>ma. projr (measure_value ma rows)) mas
       @ (if include_count then [VInt (int (length rows))] else [])"

text \<open>The aggregate record of one key: the rows of the key processed one after the other.\<close>

fun fold_rows :: "measure_aggregate list \<Rightarrow> bool \<Rightarrow> val list \<Rightarrow> row list \<Rightarrow> error + val list" where
  "fold_rows mas include_count ka [] = Inr ka"
| "fold_rows mas include_count ka (r # rs) =
     (case update_key_aggregate mas include_count ka r of
        Inl e \<Rightarrow> Inl e
      | Inr ka' \<Rightarrow> fold_rows mas include_count ka' rs)"

section \<open>Example stores\<close>

text \<open>\<open>FieldList(["a"])\<close> built in the empty store: the store and the list's address.\<close>

definition example_single :: "heap \<times> addr" where
  "example_single = projr (FieldList_init empty_heap [SpecStr ''a''])"

text \<open>\<open>FieldList([("a", "string"), ("a", "integer")])\<close>: two fields with one name.\<close>

definition example_duplicate :: "heap \<times> addr" where
  "example_duplicate =
     projr (FieldList_init empty_heap [SpecSeq [''a'', ''string''], SpecSeq [''a'', ''integer'']])"

text \<open>\<open>FieldList([("amount", "integer"), {"name": "price", "storage_type": "float"}])\<close>.\<close>

definition example_typed :: "heap \<times> addr" where
  "example_typed =
     projr (FieldList_init empty_heap
       [SpecSeq [''amount'', ''integer''], SpecDict [(''name'', ''price''), (''storage_type'', ''float'')]])"

text \<open>\<open>G = F.copy()\<close> for \<open>F = FieldList(["a"])\<close>: the store after the copy and the address of \<open>G\<close>.\<close>

definition example_copy :: "heap \<times> addr" where
  "example_copy = projr (FieldList_copy (fst example_single) (snd example_single) None)"

text \<open>The state of \<open>FieldList(["a", "b"])\<close>, as the stream operators receive it.\<close>

definition example_ab :: FieldList where
  "example_ab =
     get_list (fst (projr (FieldList_init empty_heap [SpecStr ''a'', SpecStr ''b''])))
       (snd (projr (FieldList_init empty_heap [SpecStr ''a'', SpecStr ''b''])))"

text \<open>A user function: \<open>lambda x: x + 1\<close> on integers.\<close>

definition increment :: py_function where
  "increment pos kw = (case pos of [VInt n] \<Rightarrow> Inr (VInt (n + 1)) | _ \<Rightarrow> Inl TypeError)"

text \<open>The rule \<open>{"action": "function", "function": increment, "source": s}\<close>.\<close>

definition increment_rule :: "string \<Rightarrow> desc" where
  "increment_rule s =
     \<lparr>desc_action = Some ''function'', desc_source = Some (SrcName s),
      desc_function = Some increment, desc_args = None, desc_map = None,
      desc_missing_value = VNone, desc_value = VNone\<rparr>"

text \<open>The rule \<open>{"action": "upper"}\<close>, whose action no branch handles.\<close>

definition upper_rule :: desc where
  "upper_rule =
     \<lparr>desc_action = Some ''upper'', desc_source = None,
      desc_function = None, desc_args = None, desc_map = None,
      desc_missing_value = VNone, desc_value = VNone\<rparr>"

text \<open>The state of the FieldList with the fields \<open>region, amount\<close>.\<close>

definition example_region_amount :: FieldList where
  "example_region_amount =
     get_list (fst (projr (FieldList_init empty_heap [SpecStr ''region'', SpecStr ''amount''])))
       (snd (projr (FieldList_init empty_heap [SpecStr ''region'', SpecStr ''amount''])))"

definition example_rows :: "row list" where
  "example_rows = [[VStr ''east'', VInt 10], [VStr ''west'', VInt 5], [VStr ''east'', VInt 3]]"

section \<open>Properties of FieldList\<close>

lemma new_field_list_objs:
  "new_field h field = Inr (h1, nf) \<Longrightarrow> list_objs h1 = list_objs h"
  by (auto simp: new_field_def alloc_field_def split: field_spec.splits sum.splits if_splits)

lemma FieldList_append_Inl:
  "FieldList_append h self field = Inl e \<longleftrightarrow> new_field h field = Inl e"
  by (auto simp: FieldList_append_def Let_def split: sum.splits prod.splits)

lemma list_index_None: "list_index xs x = None \<longleftrightarrow> x \<notin> set xs"
  by (induction xs) auto

lemma list_index_Some:
  "list_index xs x = Some i \<Longrightarrow> i < length xs \<and> xs ! i = x \<and> (\<forall>j<i. xs ! j \<noteq> x)"
proof (induction xs arbitrary: i)
  case Nil
  then show ?case by simp
next
  case (Cons y ys)
  show ?case
  proof (cases "y = x")
    case True
    with Cons.prems show ?thesis by simp
  next
    case False
    with Cons.prems obtain k where k: "list_index ys x = Some k" "i = Suc k" by auto
    from Cons.IH[OF k(1)] False k(2) show ?thesis
      by (auto simp: nth_Cons split: nat.splits)
  qed
qed

lemma list_index_distinct:
  "distinct xs \<Longrightarrow> i < length xs \<Longrightarrow> list_index xs (xs ! i) = Some i"
proof (induction xs arbitrary: i)
  case Nil
  then show ?case by simp
next
  case (Cons y ys)
  then show ?case by (cases i) auto
qed

lemmas fields_eval =
  FieldList_init_def alloc_list_def empty_heap_def FieldList_append_def new_field_def
  spec_dict_def dict_set_def copy_key_def Field_init_def alloc_field_def get_list_def
  get_field_def Let_def py_getitem_def

text \<open>
  C2, as the code has it. \<open>append\<close> has no check for an existing name. For a
  specification that resolves to a Field \<open>nf\<close> whose name is already among the names of
  the list, \<open>append\<close> returns normally: \<open>nf\<close> is added at the end of the fields, its name
  at the end of the names, and the name index maps the name to \<open>nf\<close>. \<open>append\<close> raises
  exactly when the specification itself cannot be resolved, whatever the list holds.
\<close>

theorem FieldList_append_duplicate_accepted:
  assumes "new_field h field = Inr (h1, nf)"
    and "name (get_field h1 nf) \<in> set (priv_field_names (get_list h self))"
  shows "\<not> isl (FieldList_append h self field)
     \<and> priv_fields (get_list (projr (FieldList_append h self field)) self)
          = priv_fields (get_list h self) @ [nf]
     \<and> priv_field_names (get_list (projr (FieldList_append h self field)) self)
          = priv_field_names (get_list h self) @ [name (get_field h1 nf)]
     \<and> priv_field_dict (get_list (projr (FieldList_append h self field)) self)
          = (priv_field_dict (get_list h self))(name (get_field h1 nf) \<mapsto> nf)
     \<and> (\<forall>e spec. FieldList_append h self spec = Inl e \<longleftrightarrow> new_field h spec = Inl e)"
proof -
  have l: "get_list h1 self = get_list h self"
    using new_field_list_objs[OF assms(1)] by (simp add: get_list_def)
  have "\<forall>e spec. FieldList_append h self spec = Inl e \<longleftrightarrow> new_field h spec = Inl e"
    by (simp add: FieldList_append_Inl)
  moreover have "\<not> isl (FieldList_append h self field)
     \<and> priv_fields (get_list (projr (FieldList_append h self field)) self)
          = priv_fields (get_list h self) @ [nf]
     \<and> priv_field_names (get_list (projr (FieldList_append h self field)) self)
          = priv_field_names (get_list h self) @ [name (get_field h1 nf)]
     \<and> priv_field_dict (get_list (projr (FieldList_append h self field)) self)
          = (priv_field_dict (get_list h self))(name (get_field h1 nf) \<mapsto> nf)"
    using assms(1) l by (simp add: FieldList_append_def Let_def get_list_def)
  ultimately show ?thesis by blast
qed

theorem FieldList_append_duplicate_accepted_witness:
  "name (get_field (fst (projr (new_field (fst example_single) (SpecStr ''a''))))
          (snd (projr (new_field (fst example_single) (SpecStr ''a'')))))
     \<in> set (priv_field_names (get_list (fst example_single) (snd example_single)))
   \<and> \<not> isl (FieldList_append (fst example_single) (snd example_single) (SpecStr ''a''))
   \<and> priv_field_names
        (get_list (projr (FieldList_append (fst example_single) (snd example_single) (SpecStr ''a'')))
           (snd example_single))
      = priv_field_names (get_list (fst example_single) (snd example_single)) @ [''a'']"
proof -
  have nf: "new_field (fst example_single) (SpecStr ''a'')
              = Inr (fst (projr (new_field (fst example_single) (SpecStr ''a''))),
                     snd (projr (new_field (fst example_single) (SpecStr ''a''))))"
    by (simp add: example_single_def fields_eval)
  have n: "name (get_field (fst (projr (new_field (fst example_single) (SpecStr ''a''))))
          (snd (projr (new_field (fst example_single) (SpecStr ''a''))))) = ''a''"
    by (simp add: example_single_def fields_eval)
  have mem: "name (get_field (fst (projr (new_field (fst example_single) (SpecStr ''a''))))
          (snd (projr (new_field (fst example_single) (SpecStr ''a'')))))
     \<in> set (priv_field_names (get_list (fst example_single) (snd example_single)))"
    unfolding n by (simp add: example_single_def fields_eval)
  from FieldList_append_duplicate_accepted [OF nf mem] mem show ?thesis
    unfolding n by blast
qed

text \<open>
  C2 as stated fails: appending the name \<open>a\<close> to \<open>FieldList(["a"])\<close> raises nothing and
  leaves a list with the names \<open>a, a\<close>.
\<close>

theorem FieldList_append_duplicate_counterexample:
  "priv_field_names (get_list (fst example_single) (snd example_single)) = [''a'']
   \<and> \<not> isl (FieldList_append (fst example_single) (snd example_single) (SpecStr ''a''))
   \<and> priv_field_names
        (get_list (projr (FieldList_append (fst example_single) (snd example_single) (SpecStr ''a'')))
           (snd example_single)) = [''a'', ''a'']
   \<and> length (priv_fields
        (get_list (projr (FieldList_append (fst example_single) (snd example_single) (SpecStr ''a'')))
           (snd example_single))) = 2"
  by (simp add: example_single_def fields_eval)

text \<open>
  C3, as the code has it. \<open>index\<close> looks the name of its argument up in the list of
  names. When the name is not there it raises KeyError (the code's error for an unknown
  field). When it is there, \<open>index\<close> returns the first position that carries the name.
  When the names of the list are pairwise distinct, that is the position of the field:
  the name at position \<open>i\<close> has index \<open>i\<close>.
\<close>

theorem FieldList_index_first_position:
  assumes "field_name h field = Inr n"
  shows "(n \<notin> set (priv_field_names (get_list h self)) \<longrightarrow> FieldList_index h self field = Inl KeyError)
     \<and> (n \<in> set (priv_field_names (get_list h self)) \<longrightarrow>
          (\<exists>i<length (priv_field_names (get_list h self)).
              FieldList_index h self field = Inr i \<and> priv_field_names (get_list h self) ! i = n
              \<and> (\<forall>j<i. priv_field_names (get_list h self) ! j \<noteq> n)))
     \<and> (distinct (priv_field_names (get_list h self)) \<longrightarrow>
          (\<forall>i<length (priv_field_names (get_list h self)).
              FieldList_index h self (RefStr (priv_field_names (get_list h self) ! i)) = Inr i))"
proof (intro conjI impI)
  assume "n \<notin> set (priv_field_names (get_list h self))"
  then have "list_index (priv_field_names (get_list h self)) n = None"
    by (simp add: list_index_None)
  then show "FieldList_index h self field = Inl KeyError"
    using assms by (simp add: FieldList_index_def index_name_def)
next
  assume "n \<in> set (priv_field_names (get_list h self))"
  then obtain i where i: "list_index (priv_field_names (get_list h self)) n = Some i"
    using list_index_None[of "priv_field_names (get_list h self)" n] by auto
  from list_index_Some[OF i] i assms
  show "\<exists>i<length (priv_field_names (get_list h self)).
              FieldList_index h self field = Inr i \<and> priv_field_names (get_list h self) ! i = n
              \<and> (\<forall>j<i. priv_field_names (get_list h self) ! j \<noteq> n)"
    by (auto simp: FieldList_index_def index_name_def)
next
  assume "distinct (priv_field_names (get_list h self))"
  then show "\<forall>i<length (priv_field_names (get_list h self)).
              FieldList_index h self (RefStr (priv_field_names (get_list h self) ! i)) = Inr i"
    by (simp add: FieldList_index_def index_name_def field_name_def list_index_distinct)
qed

theorem FieldList_index_first_position_witness:
  "field_name (fst example_duplicate) (RefStr ''a'') = Inr ''a''
   \<and> FieldList_index (fst example_duplicate) (snd example_duplicate) (RefStr ''a'') = Inr 0
   \<and> field_name (fst example_duplicate) (RefStr ''b'') = Inr ''b''
   \<and> FieldList_index (fst example_duplicate) (snd example_duplicate) (RefStr ''b'') = Inl KeyError
   \<and> distinct (priv_field_names (get_list (fst example_typed) (snd example_typed)))
   \<and> FieldList_index (fst example_typed) (snd example_typed) (RefStr ''price'') = Inr 1"
proof -
  have a: "field_name (fst example_duplicate) (RefStr ''a'') = Inr ''a''"
    and b: "field_name (fst example_duplicate) (RefStr ''b'') = Inr ''b''"
    and c: "field_name (fst example_typed) (RefStr ''price'') = Inr ''price''"
    by (simp_all add: field_name_def)
  have nd: "priv_field_names (get_list (fst example_duplicate) (snd example_duplicate)) = [''a'', ''a'']"
    by (simp add: example_duplicate_def fields_eval)
  have nt: "priv_field_names (get_list (fst example_typed) (snd example_typed)) = [''amount'', ''price'']"
    by (simp add: example_typed_def fields_eval)
  from FieldList_index_first_position [OF a, of "snd example_duplicate"]
  have 1: "FieldList_index (fst example_duplicate) (snd example_duplicate) (RefStr ''a'') = Inr 0"
    unfolding nd by auto
  from FieldList_index_first_position [OF b, of "snd example_duplicate"]
  have 2: "FieldList_index (fst example_duplicate) (snd example_duplicate) (RefStr ''b'') = Inl KeyError"
    unfolding nd by simp
  from FieldList_index_first_position [OF c, of "snd example_typed"]
  have 3: "FieldList_index (fst example_typed) (snd example_typed) (RefStr ''price'') = Inr 1"
    unfolding nt by (auto simp: less_Suc_eq)
  from a b 1 2 3 nt show ?thesis by simp
qed

text \<open>
  C3 as stated fails on a list with two fields of one name: the Field object at
  position 1 is present, and \<open>index\<close> of it is 0, the position of another Field object.
\<close>

theorem FieldList_index_counterexample:
  "length (priv_fields (get_list (fst example_duplicate) (snd example_duplicate))) = 2
   \<and> priv_fields (get_list (fst example_duplicate) (snd example_duplicate)) ! 0
       \<noteq> priv_fields (get_list (fst example_duplicate) (snd example_duplicate)) ! 1
   \<and> FieldList_index (fst example_duplicate) (snd example_duplicate)
        (RefField (priv_fields (get_list (fst example_duplicate) (snd example_duplicate)) ! 1)) = Inr 0"
  by (simp add: example_duplicate_def fields_eval FieldList_index_def index_name_def field_name_def)

text \<open>
  C4. A specification with a storage type and no analytical type gets the analytical
  type \<open>typeless\<close>, not the default of its storage type: the keyword dictionary starts
  with \<open>analytical_type = "typeless"\<close>, so the branch that would look the default up never
  runs. For \<open>("amount", "integer")\<close> and \<open>{"name": "price", "storage_type": "float"}\<close> the
  table \<open>default_analytical_type\<close> has \<open>discrete\<close> and \<open>range\<close>.
\<close>

theorem append_ignores_default_analytical_type:
  "map (\<lambda>a. (name (get_field (fst example_typed) a), storage_type (get_field (fst example_typed) a),
              analytical_type (get_field (fst example_typed) a)))
     (priv_fields (get_list (fst example_typed) (snd example_typed)))
     = [(''amount'', ''integer'', ''typeless''), (''price'', ''float'', ''typeless'')]
   \<and> map_of default_analytical_type ''integer'' = Some ''discrete''
   \<and> map_of default_analytical_type ''float'' = Some ''range''"
  by (simp add: example_typed_def fields_eval default_analytical_type_def)

text \<open>The same for every pair of a name and a storage type.\<close>

lemma new_field_pair_typeless:
  "new_field h (SpecSeq [n, st]) =
     Inr (alloc_field h \<lparr>name = n, label = None, storage_type = st, analytical_type = ''typeless'',
                          concrete_storage_type = None, missing_values = None\<rparr>)"
  by (simp add: new_field_def spec_dict_def dict_set_def Field_init_def py_getitem_def Let_def)

section \<open>Properties of FieldList.copy\<close>

lemma append_all_fields:
  "list_objs h self = Some l \<Longrightarrow>
   \<exists>h' l'. append_all h self (map SpecField as) = Inr h'
      \<and> field_objs h' = field_objs h \<and> next_addr h' = next_addr h
      \<and> (\<forall>a. a \<noteq> self \<longrightarrow> list_objs h' a = list_objs h a)
      \<and> list_objs h' self = Some l'
      \<and> priv_fields l' = priv_fields l @ as
      \<and> (\<forall>n x. priv_field_dict l' n = Some x \<longrightarrow> x \<in> set as \<or> priv_field_dict l n = Some x)"
proof (induction as arbitrary: h l)
  case Nil
  then show ?case by simp
next
  case (Cons a as)
  define l1 where "l1 = l\<lparr>priv_fields := priv_fields l @ [a],
                    priv_field_dict := (priv_field_dict l)(name (get_field h a) \<mapsto> a),
                    priv_field_names := priv_field_names l @ [name (get_field h a)]\<rparr>"
  define h1 where "h1 = h\<lparr>list_objs := (list_objs h)(self \<mapsto> l1)\<rparr>"
  have step: "FieldList_append h self (SpecField a) = Inr h1"
    using Cons.prems by (simp add: FieldList_append_def new_field_def get_list_def h1_def l1_def Let_def)
  have l1: "list_objs h1 self = Some l1" by (simp add: h1_def)
  from Cons.IH[OF l1] obtain h' l' where r:
    "append_all h1 self (map SpecField as) = Inr h'"
    "field_objs h' = field_objs h1" "next_addr h' = next_addr h1"
    "\<forall>a. a \<noteq> self \<longrightarrow> list_objs h' a = list_objs h1 a"
    "list_objs h' self = Some l'"
    "priv_fields l' = priv_fields l1 @ as"
    "\<forall>n x. priv_field_dict l' n = Some x \<longrightarrow> x \<in> set as \<or> priv_field_dict l1 n = Some x"
    by blast
  have d: "\<forall>n x. priv_field_dict l' n = Some x \<longrightarrow> x \<in> set (a # as) \<or> priv_field_dict l n = Some x"
    using r(7) by (auto simp: l1_def split: if_splits)
  show ?case
    using step r(1-6) d by (simp add: h1_def l1_def)
qed

lemma FieldList_init_fields:
  "\<exists>h' l'. FieldList_init h (map SpecField as) = Inr (h', next_addr h)
      \<and> field_objs h' = field_objs h \<and> next_addr h' = Suc (next_addr h)
      \<and> (\<forall>a. a \<noteq> next_addr h \<longrightarrow> list_objs h' a = list_objs h a)
      \<and> list_objs h' (next_addr h) = Some l'
      \<and> priv_fields l' = as
      \<and> (\<forall>n x. priv_field_dict l' n = Some x \<longrightarrow> x \<in> set as)"
proof -
  define l0 where "l0 = \<lparr>priv_fields = [], priv_field_dict = Map.empty, priv_field_names = []\<rparr>"
  define h0 where "h0 = h\<lparr>list_objs := (list_objs h)(next_addr h \<mapsto> l0), next_addr := Suc (next_addr h)\<rparr>"
  have l: "list_objs h0 (next_addr h) = Some l0" by (simp add: h0_def)
  from append_all_fields[OF l, of as] obtain h' l' where r:
    "append_all h0 (next_addr h) (map SpecField as) = Inr h'"
    "field_objs h' = field_objs h0" "next_addr h' = next_addr h0"
    "\<forall>a. a \<noteq> next_addr h \<longrightarrow> list_objs h' a = list_objs h0 a"
    "list_objs h' (next_addr h) = Some l'"
    "priv_fields l' = priv_fields l0 @ as"
    "\<forall>n x. priv_field_dict l' n = Some x \<longrightarrow> x \<in> set as \<or> priv_field_dict l0 n = Some x"
    by blast
  have "FieldList_init h (map SpecField as) = Inr (h', next_addr h)"
    using r(1) by (simp add: FieldList_init_def alloc_list_def h0_def l0_def)
  then show ?thesis using r(2-7) by (simp add: h0_def l0_def)
qed

lemma lookup_fields_ran:
  "lookup_fields d ns = Inr as \<Longrightarrow> \<forall>x\<in>set as. \<exists>n. d n = Some x"
  by (induction ns arbitrary: as) (auto split: option.splits sum.splits)

lemma copy_fields_bound:
  assumes "wf_heap h" and "list_objs h f = Some lf"
    and "FieldList_fields h f ns = Inr as"
  shows "\<forall>x\<in>set as. x < next_addr h"
proof -
  from assms(1,2) have b: "\<forall>x\<in>set (priv_fields lf). x < next_addr h"
    "\<forall>n x. priv_field_dict lf n = Some x \<longrightarrow> x < next_addr h"
    by (auto simp: wf_heap_def)
  have "as = priv_fields lf \<or> (\<exists>xs. lookup_fields (priv_field_dict lf) xs = Inr as)"
    using assms(2,3)
    by (auto simp: FieldList_fields_def get_list_def split: option.splits if_splits)
  then show ?thesis
  proof
    assume "as = priv_fields lf"
    with b(1) show ?thesis by simp
  next
    assume "\<exists>xs. lookup_fields (priv_field_dict lf) xs = Inr as"
    then obtain xs where "lookup_fields (priv_field_dict lf) xs = Inr as" ..
    from lookup_fields_ran[OF this] b(2) show ?thesis by blast
  qed
qed

lemma FieldList_copy_result:
  assumes "wf_heap h" and "list_objs h f = Some lf"
    and "FieldList_copy h f subset_names = Inr (h1, c)"
  shows "c = next_addr h \<and> c \<noteq> f \<and> wf_heap h1 \<and> field_objs h1 = field_objs h
     \<and> list_objs h1 f = Some lf \<and> list_objs h1 c \<noteq> None
     \<and> (subset_names = None \<longrightarrow> priv_fields (get_list h1 c) = priv_fields lf)"
proof -
  obtain as where as: "FieldList_copy h f subset_names = FieldList_init h (map SpecField as)"
    "\<forall>x\<in>set as. x < next_addr h" "subset_names = None \<longrightarrow> as = priv_fields lf"
  proof (cases subset_names)
    case None
    have "\<forall>x\<in>set (priv_fields lf). x < next_addr h"
      using assms(1,2) by (auto simp: wf_heap_def)
    then show ?thesis using None assms(2) that[of "priv_fields lf"]
      by (simp add: FieldList_copy_def get_list_def)
  next
    case (Some ns)
    with assms(3) obtain as where f: "FieldList_fields h f (Some ns) = Inr as"
      by (auto simp: FieldList_copy_def split: sum.splits)
    from copy_fields_bound[OF assms(1,2) f] f Some show ?thesis
      using that[of as] by (simp add: FieldList_copy_def)
  qed
  from FieldList_init_fields[of h as] obtain h' l' where r:
    "FieldList_init h (map SpecField as) = Inr (h', next_addr h)"
    "field_objs h' = field_objs h" "next_addr h' = Suc (next_addr h)"
    "\<forall>a. a \<noteq> next_addr h \<longrightarrow> list_objs h' a = list_objs h a"
    "list_objs h' (next_addr h) = Some l'"
    "priv_fields l' = as"
    "\<forall>n x. priv_field_dict l' n = Some x \<longrightarrow> x \<in> set as"
    by blast
  from assms(3) as(1) r(1) have hc: "h1 = h'" "c = next_addr h" by simp_all
  from assms(1,2) have flt: "f < next_addr h" by (auto simp: wf_heap_def)
  have wf: "wf_heap h'"
    unfolding wf_heap_def
  proof (intro allI impI)
    fix a l assume al: "list_objs h' a = Some l"
    show "a < next_addr h' \<and> (\<forall>x\<in>set (priv_fields l). x < next_addr h')
        \<and> (\<forall>n x. priv_field_dict l n = Some x \<longrightarrow> x < next_addr h')"
    proof (cases "a = next_addr h")
      case True
      with al r(5) have "l = l'" by simp
      then show ?thesis using True r(3,6,7) as(2) by (auto simp: less_Suc_eq)
    next
      case False
      with al r(4) have "list_objs h a = Some l" by simp
      with assms(1) show ?thesis using r(3) by (auto simp: wf_heap_def less_Suc_eq)
    qed
  qed
  show ?thesis
    using hc wf flt r(2,4,5,6) assms(2) as(3) by (auto simp: get_list_def)
qed

lemma new_field_frame:
  assumes "new_field h field = Inr (h1, nf)"
  shows "list_objs h1 = list_objs h \<and> (\<forall>x<next_addr h. field_objs h1 x = field_objs h x)"
  using assms
  by (auto simp: new_field_def alloc_field_def split: field_spec.splits sum.splits if_splits)

lemma mutate_frame:
  assumes "wf_heap h" and "list_objs h other = Some lo" and "other \<noteq> self"
    and "mutate h self m = Inr h2"
  shows "observe h2 other = observe h other"
proof -
  from assms(1,2) have b: "\<forall>x\<in>set (priv_fields lo). x < next_addr h"
    "\<forall>n x. priv_field_dict lo n = Some x \<longrightarrow> x < next_addr h"
    by (auto simp: wf_heap_def)
  have fr: "list_objs h2 other = Some lo \<and> (\<forall>x<next_addr h. field_objs h2 x = field_objs h x)"
  proof (cases m)
    case (Append field)
    with assms(4) obtain h1 nf where nf: "new_field h field = Inr (h1, nf)"
      by (auto simp: mutate_def FieldList_append_def split: sum.splits)
    from new_field_frame[OF nf] assms(2,3,4) Append nf show ?thesis
      by (auto simp: mutate_def FieldList_append_def Let_def)
  next
    case (SetItem index nf)
    with assms(2,3,4) show ?thesis
      by (auto simp: mutate_def FieldList_setitem_def Let_def split: sum.splits if_splits)
  next
    case (DelItem index)
    with assms(2,3,4) show ?thesis
      by (auto simp: mutate_def FieldList_delitem_def Let_def split: sum.splits if_splits)
  qed
  have 1: "map (get_field h2) (priv_fields lo) = map (get_field h) (priv_fields lo)"
    using fr b(1) by (auto simp: get_field_def)
  have 2: "(\<lambda>n. map_option (get_field h2) (priv_field_dict lo n))
         = (\<lambda>n. map_option (get_field h) (priv_field_dict lo n))"
  proof
    fix n show "map_option (get_field h2) (priv_field_dict lo n) = map_option (get_field h) (priv_field_dict lo n)"
      using fr b(2) by (cases "priv_field_dict lo n") (auto simp: get_field_def)
  qed
  show ?thesis using fr assms(2) 1 2 by (simp add: observe_def get_list_def)
qed

text \<open>
  C6, as the code has it. \<open>copy\<close> (with or without names) returns a new FieldList object
  with containers of its own and leaves the original as it was. After the copy, every
  structural mutation of the copy (\<open>append\<close>, assignment at a position, deletion at a
  position) that returns normally leaves the original observationally unchanged, and
  every such mutation of the original leaves the copy unchanged. The copy is shallow:
  without names it holds the very Field objects of the original.
\<close>

theorem FieldList_copy_independent_structure:
  assumes "wf_heap h" and "list_objs h f = Some lf"
    and "FieldList_copy h f subset_names = Inr (h1, c)"
  shows "c \<noteq> f
     \<and> observe h1 f = observe h f
     \<and> (\<forall>m h2. mutate h1 c m = Inr h2 \<longrightarrow> observe h2 f = observe h1 f)
     \<and> (\<forall>m h2. mutate h1 f m = Inr h2 \<longrightarrow> observe h2 c = observe h1 c)
     \<and> (subset_names = None \<longrightarrow> priv_fields (get_list h1 c) = priv_fields lf)"
proof -
  from FieldList_copy_result[OF assms] have r:
    "c \<noteq> f" "wf_heap h1" "field_objs h1 = field_objs h" "list_objs h1 f = Some lf"
    "list_objs h1 c \<noteq> None" "subset_names = None \<longrightarrow> priv_fields (get_list h1 c) = priv_fields lf"
    by blast+
  from r(5) obtain lc where lc: "list_objs h1 c = Some lc" by auto
  have gf: "get_field h1 = get_field h"
    by (rule ext) (simp add: get_field_def r(3))
  have 1: "observe h1 f = observe h f"
    using r(4) assms(2) gf by (simp add: observe_def get_list_def)
  have 2: "\<forall>m h2. mutate h1 c m = Inr h2 \<longrightarrow> observe h2 f = observe h1 f"
  proof (intro allI impI)
    fix m h2 assume "mutate h1 c m = Inr h2"
    from mutate_frame[OF r(2) r(4) _ this] r(1) show "observe h2 f = observe h1 f" by auto
  qed
  have 3: "\<forall>m h2. mutate h1 f m = Inr h2 \<longrightarrow> observe h2 c = observe h1 c"
  proof (intro allI impI)
    fix m h2 assume "mutate h1 f m = Inr h2"
    from mutate_frame[OF r(2) lc _ this] r(1) show "observe h2 c = observe h1 c" by auto
  qed
  from r(1) 1 2 3 r(6) show ?thesis by blast
qed

lemmas copy_eval = FieldList_copy_def FieldList_fields_def mutate_def
  FieldList_setitem_def FieldList_delitem_def py_setitem_def py_delitem_def

theorem FieldList_copy_independent_structure_witness:
  "wf_heap (fst example_single)
   \<and> list_objs (fst example_single) (snd example_single) \<noteq> None
   \<and> snd example_copy \<noteq> snd example_single
   \<and> priv_field_names (get_list
        (projr (mutate (fst example_copy) (snd example_copy) (Append (SpecStr ''b''))))
        (snd example_copy)) = [''a'', ''b'']
   \<and> observe (projr (mutate (fst example_copy) (snd example_copy) (Append (SpecStr ''b''))))
        (snd example_single)
      = observe (fst example_single) (snd example_single)"
proof -
  have wf: "wf_heap (fst example_single)"
    by (simp add: wf_heap_def example_single_def fields_eval)
  have l: "list_objs (fst example_single) (snd example_single)
             = Some (get_list (fst example_single) (snd example_single))"
    by (simp add: example_single_def fields_eval)
  have c: "FieldList_copy (fst example_single) (snd example_single) None
             = Inr (fst example_copy, snd example_copy)"
    by (simp add: example_copy_def example_single_def fields_eval copy_eval)
  have m: "mutate (fst example_copy) (snd example_copy) (Append (SpecStr ''b''))
             = Inr (projr (mutate (fst example_copy) (snd example_copy) (Append (SpecStr ''b''))))"
    by (simp add: example_copy_def example_single_def fields_eval copy_eval)
  have n: "priv_field_names (get_list
        (projr (mutate (fst example_copy) (snd example_copy) (Append (SpecStr ''b''))))
        (snd example_copy)) = [''a'', ''b'']"
    by (simp add: example_copy_def example_single_def fields_eval copy_eval)
  from FieldList_copy_independent_structure [OF wf l c] m n wf l show ?thesis
    by auto
qed

text \<open>
  C6 as stated fails for the mutation of a contained Field: with \<open>F = FieldList(["a"])\<close>
  and \<open>G = F.copy()\<close>, the label of \<open>F[0]\<close> is \<open>None\<close>, and after \<open>G[0].label = "x"\<close> it is
  \<open>"x"\<close>.
\<close>

theorem FieldList_copy_shares_fields_counterexample:
  "label (fst (observe (fst example_copy) (snd example_single)) ! 0) = None
   \<and> label (fst (observe
        (Field_set_label (fst example_copy)
           (priv_fields (get_list (fst example_copy) (snd example_copy)) ! 0) (Some ''x''))
        (snd example_single)) ! 0) = Some ''x''"
  by (simp add: example_copy_def example_single_def fields_eval copy_eval observe_def
      Field_set_label_def Field_setattr_def)

section \<open>Properties of FieldMap.map\<close>

lemma append_field_result:
  "FieldList_append h out (SpecField a) =
     Inr (h\<lparr>list_objs := (list_objs h)(out \<mapsto>
            (get_list h out)\<lparr>priv_fields := priv_fields (get_list h out) @ [a],
               priv_field_dict := (priv_field_dict (get_list h out))(name (get_field h a) \<mapsto> a),
               priv_field_names := priv_field_names (get_list h out) @ [name (get_field h a)]\<rparr>)\<rparr>)"
  by (simp add: FieldList_append_def new_field_def Let_def)

lemma map_loop_unbound_copy:
  "\<exists>x\<in>set fs. name (get_field h x) \<in> set (map fst (rename fm)) \<Longrightarrow>
   map_loop None fm h out fs = Inl NameError"
proof (induction fs arbitrary: h)
  case Nil
  then show ?case by simp
next
  case (Cons f fs)
  show ?case
  proof (cases "name (get_field h f) \<in> set (map fst (rename fm))")
    case True
    then show ?thesis by simp
  next
    case False
    with Cons.prems have ex: "\<exists>x\<in>set fs. name (get_field h x) \<in> set (map fst (rename fm))"
      by auto
    define h2 where "h2 = projr (FieldList_append h out (SpecField f))"
    have a: "FieldList_append h out (SpecField f) = Inr h2"
      by (simp add: h2_def append_field_result)
    have "get_field h2 = get_field h"
      by (rule ext) (simp add: h2_def append_field_result get_field_def)
    with ex have ex2: "\<exists>x\<in>set fs. name (get_field h2 x) \<in> set (map fst (rename fm))"
      by simp
    show ?thesis
      using False a Cons.IH[OF ex] Cons.IH[OF ex2] by simp
  qed
qed

text \<open>
  C5. \<open>FieldMap.map\<close> does not return the renamed schema: whenever a field of the input
  list has a name in the rename mapping (dropped or not), the call raises NameError,
  because the module never binds the name \<open>copy\<close> that the rename branch reads.
\<close>

theorem FieldMap_map_rename_raises_NameError:
  assumes "field_list \<noteq> next_addr h"
    and "\<exists>x\<in>set (priv_fields (get_list h field_list)). name (get_field h x) \<in> set (map fst (rename fm))"
  shows "FieldMap_map fields_module_copy h fm field_list = Inl NameError"
proof -
  define h0 where "h0 = h\<lparr>list_objs := (list_objs h)(next_addr h \<mapsto>
      \<lparr>priv_fields = [], priv_field_dict = Map.empty, priv_field_names = []\<rparr>),
      next_addr := Suc (next_addr h)\<rparr>"
  have i: "FieldList_init h [] = Inr (h0, next_addr h)"
    by (simp add: FieldList_init_def alloc_list_def h0_def)
  have l: "get_list h0 field_list = get_list h field_list"
    using assms(1) by (simp add: h0_def get_list_def)
  have "get_field h0 = get_field h"
    by (rule ext) (simp add: h0_def get_field_def)
  with assms(2) l have "\<exists>x\<in>set (priv_fields (get_list h0 field_list)).
      name (get_field h0 x) \<in> set (map fst (rename fm))" by simp
  from map_loop_unbound_copy[OF this] i show ?thesis
    by (simp add: FieldMap_map_def fields_module_copy_def)
qed

theorem FieldMap_map_rename_raises_NameError_witness:
  "snd example_single \<noteq> next_addr (fst example_single)
   \<and> FieldMap_map fields_module_copy (fst example_single)
        (FieldMap_init (Some [(''a'', ''b'')]) None) (snd example_single) = Inl NameError
   \<and> FieldMap_map fields_module_copy (fst example_single)
        (FieldMap_init (Some [(''a'', ''b'')]) (Some [''a''])) (snd example_single) = Inl NameError"
proof -
  have a: "snd example_single \<noteq> next_addr (fst example_single)"
    by (simp add: example_single_def fields_eval)
  have b: "\<exists>x\<in>set (priv_fields (get_list (fst example_single) (snd example_single))).
             name (get_field (fst example_single) x)
               \<in> set (map fst (rename (FieldMap_init (Some [(''a'', ''b'')]) d)))" for d
    by (simp add: example_single_def fields_eval FieldMap_init_def)
  from FieldMap_map_rename_raises_NameError [OF a b [of None]]
       FieldMap_map_rename_raises_NameError [OF a b [of "Some [''a'']"]] a
  show ?thesis by simp
qed

text \<open>
  With the name \<open>copy\<close> bound to the standard library's function, \<open>map\<close> returns a new
  list whose fields are, in input order, the input fields that are not dropped, each
  renamed when the rename mapping has its name and otherwise as it is, and the input
  list is observationally unchanged.
\<close>

lemma mapped_fields_Cons:
  "mapped_fields fm (f # fs) =
     (if name f \<notin> set (drop fm)
      then [case map_of (rename fm) (name f) of None \<Rightarrow> f | Some new_name \<Rightarrow> f\<lparr>name := new_name\<rparr>]
      else []) @ mapped_fields fm fs"
  by (simp add: mapped_fields_def)

lemma map_of_in_keys: "k \<in> set (map fst xs) \<Longrightarrow> map_of xs k = Some (the (map_of xs k))"
  by (cases "map_of xs k") (auto simp: map_of_eq_None_iff)

lemma map_of_not_in_keys: "k \<notin> set (map fst xs) \<Longrightarrow> map_of xs k = None"
  by (simp add: map_of_eq_None_iff)

lemma map_loop_bound_copy:
  assumes "list_objs h out = Some lo"
    and "\<forall>x\<in>set fs. x < next_addr h"
    and "\<forall>x\<in>set (priv_fields lo). x < next_addr h"
  shows "\<exists>h' lo'. map_loop (Some copy_copy) fm h out fs = Inr h'
     \<and> list_objs h' out = Some lo'
     \<and> (\<forall>a. a \<noteq> out \<longrightarrow> list_objs h' a = list_objs h a)
     \<and> (\<forall>x<next_addr h. field_objs h' x = field_objs h x)
     \<and> next_addr h \<le> next_addr h'
     \<and> map (get_field h') (priv_fields lo')
         = map (get_field h) (priv_fields lo) @ mapped_fields fm (map (get_field h) fs)"
  using assms
proof (induction fs arbitrary: h lo)
  case Nil
  then show ?case by (simp add: mapped_fields_def)
next
  case (Cons f fs)
  define F0 where "F0 = get_field h f"
  define F1 where "F1 = (case map_of (rename fm) (name F0) of None \<Rightarrow> F0
                          | Some new_name \<Rightarrow> F0\<lparr>name := new_name\<rparr>)"
  have flt: "f < next_addr h" using Cons.prems(2) by simp
  \<comment> \<open>the store and the field after the rename step\<close>
  obtain h1 nf where step:
    "(if name (get_field h f) \<in> set (map fst (rename fm))
      then (case Some copy_copy of
              None \<Rightarrow> Inl NameError
            | Some c \<Rightarrow>
                Inr (Field_setattr (fst (c h f)) (snd (c h f))
                       (\<lambda>g. g\<lparr>name := the (map_of (rename fm) (name (get_field h f)))\<rparr>),
                     snd (c h f)))
      else Inr (h, f)) = Inr (h1, nf)"
    and l1: "list_objs h1 = list_objs h"
    and f1: "\<forall>x<next_addr h. field_objs h1 x = field_objs h x"
    and n1: "next_addr h \<le> next_addr h1"
    and nf1: "nf < next_addr h1"
    and g1: "get_field h1 nf = F1"
  proof (cases "name (get_field h f) \<in> set (map fst (rename fm))")
    case True
    define hc where "hc = Field_setattr (fst (copy_copy h f)) (snd (copy_copy h f))
                       (\<lambda>g. g\<lparr>name := the (map_of (rename fm) (name (get_field h f)))\<rparr>)"
    from map_of_in_keys[OF True] obtain new_name where
      nn: "map_of (rename fm) (name (get_field h f)) = Some new_name" by blast
    have "F1 = (get_field h f)\<lparr>name := new_name\<rparr>"
      using nn by (simp add: F1_def F0_def)
    then have "get_field hc (next_addr h) = F1"
      using nn
      by (simp add: hc_def copy_copy_def alloc_field_def Field_setattr_def get_field_def)
    then show ?thesis
      using True that[of hc "next_addr h"]
      by (simp add: hc_def copy_copy_def alloc_field_def Field_setattr_def)
  next
    case False
    have "get_field h f = F1"
      using False map_of_not_in_keys[OF False] by (simp add: F1_def F0_def split: option.splits)
    then show ?thesis using False flt that[of h f] by simp
  qed
  have nm: "name (get_field h1 f) = name F0"
    using f1 flt by (simp add: get_field_def F0_def)
  have gf: "\<forall>x<next_addr h. get_field h1 x = get_field h x"
    using f1 by (simp add: get_field_def)
  have fs1: "\<forall>x\<in>set fs. x < next_addr h1" using Cons.prems(2) n1 by auto
  have mfs: "map (get_field h1) fs = map (get_field h) fs"
    using Cons.prems(2) gf by simp
  have mlo: "map (get_field h1) (priv_fields lo) = map (get_field h) (priv_fields lo)"
    using Cons.prems(3) gf by simp
  show ?case
  proof (cases "name F0 \<in> set (drop fm)")
    case True
    have lo1: "list_objs h1 out = Some lo" using l1 Cons.prems(1) by simp
    have b1: "\<forall>x\<in>set (priv_fields lo). x < next_addr h1" using Cons.prems(3) n1 by auto
    from Cons.IH[OF lo1 fs1 b1] obtain h' lo' where r:
      "map_loop (Some copy_copy) fm h1 out fs = Inr h'" "list_objs h' out = Some lo'"
      "\<forall>a. a \<noteq> out \<longrightarrow> list_objs h' a = list_objs h1 a"
      "\<forall>x<next_addr h1. field_objs h' x = field_objs h1 x" "next_addr h1 \<le> next_addr h'"
      "map (get_field h') (priv_fields lo')
         = map (get_field h1) (priv_fields lo) @ mapped_fields fm (map (get_field h1) fs)"
      by blast
    have run: "map_loop (Some copy_copy) fm h out (f # fs) = Inr h'"
      using step r(1) True nm by simp
    have res: "map (get_field h') (priv_fields lo')
         = map (get_field h) (priv_fields lo) @ mapped_fields fm (map (get_field h) (f # fs))"
      using r(6) mfs mlo True by (simp add: mapped_fields_Cons F0_def[symmetric])
    from run r(2,3,4,5) res l1 f1 n1 show ?thesis by auto
  next
    case False
    define lo1 where "lo1 = lo\<lparr>priv_fields := priv_fields lo @ [nf],
                    priv_field_dict := (priv_field_dict lo)(name (get_field h1 nf) \<mapsto> nf),
                    priv_field_names := priv_field_names lo @ [name (get_field h1 nf)]\<rparr>"
    define h2 where "h2 = h1\<lparr>list_objs := (list_objs h1)(out \<mapsto> lo1)\<rparr>"
    have ap: "FieldList_append h1 out (SpecField nf) = Inr h2"
      using l1 Cons.prems(1) by (simp add: append_field_result h2_def lo1_def get_list_def)
    have lo2: "list_objs h2 out = Some lo1" by (simp add: h2_def)
    have fs2: "\<forall>x\<in>set fs. x < next_addr h2" using fs1 by (simp add: h2_def)
    have b2: "\<forall>x\<in>set (priv_fields lo1). x < next_addr h2"
      using Cons.prems(3) n1 nf1 by (auto simp: h2_def lo1_def)
    from Cons.IH[OF lo2 fs2 b2] obtain h' lo' where r:
      "map_loop (Some copy_copy) fm h2 out fs = Inr h'" "list_objs h' out = Some lo'"
      "\<forall>a. a \<noteq> out \<longrightarrow> list_objs h' a = list_objs h2 a"
      "\<forall>x<next_addr h2. field_objs h' x = field_objs h2 x" "next_addr h2 \<le> next_addr h'"
      "map (get_field h') (priv_fields lo')
         = map (get_field h2) (priv_fields lo1) @ mapped_fields fm (map (get_field h2) fs)"
      by blast
    have g2: "get_field h2 = get_field h1" by (rule ext) (simp add: h2_def get_field_def)
    have run: "map_loop (Some copy_copy) fm h out (f # fs) = Inr h'"
      using step r(1) False nm ap by simp
    have res: "map (get_field h') (priv_fields lo')
         = map (get_field h) (priv_fields lo) @ mapped_fields fm (map (get_field h) (f # fs))"
      using r(6) mfs mlo False g1
      by (simp add: g2 lo1_def mapped_fields_Cons F0_def[symmetric] F1_def)
    have fr: "\<forall>a. a \<noteq> out \<longrightarrow> list_objs h' a = list_objs h a"
      using r(3) l1 by (simp add: h2_def)
    have ff: "\<forall>x<next_addr h. field_objs h' x = field_objs h x"
      using r(4) f1 n1 by (auto simp: h2_def)
    have nn: "next_addr h \<le> next_addr h'" using r(5) n1 by (simp add: h2_def)
    from run r(2) fr ff nn res show ?thesis by blast
  qed
qed

lemma FieldMap_map_with_copy_bound:
  assumes "wf_heap h" and "list_objs h field_list = Some lf"
  shows "\<exists>h' out. FieldMap_map (Some copy_copy) h fm field_list = Inr (h', out)
     \<and> out \<noteq> field_list
     \<and> map (get_field h') (priv_fields (get_list h' out))
         = mapped_fields fm (map (get_field h) (priv_fields lf))
     \<and> observe h' field_list = observe h field_list"
proof -
  define l0 where "l0 = \<lparr>priv_fields = [], priv_field_dict = Map.empty, priv_field_names = []\<rparr>"
  define h0 where "h0 = h\<lparr>list_objs := (list_objs h)(next_addr h \<mapsto> l0), next_addr := Suc (next_addr h)\<rparr>"
  from assms have b: "field_list < next_addr h" "\<forall>x\<in>set (priv_fields lf). x < next_addr h"
    "\<forall>n x. priv_field_dict lf n = Some x \<longrightarrow> x < next_addr h"
    by (auto simp: wf_heap_def)
  have i: "FieldList_init h [] = Inr (h0, next_addr h)"
    by (simp add: FieldList_init_def alloc_list_def h0_def l0_def)
  have lf0: "get_list h0 field_list = lf"
    using b(1) assms(2) by (simp add: h0_def get_list_def)
  have o0: "list_objs h0 (next_addr h) = Some l0" by (simp add: h0_def)
  have f0: "\<forall>x\<in>set (priv_fields lf). x < next_addr h0" using b(2) by (auto simp: h0_def)
  have e0: "\<forall>x\<in>set (priv_fields l0). x < next_addr h0" by (simp add: l0_def)
  from map_loop_bound_copy[OF o0 f0 e0, of fm] obtain h' lo' where r:
    "map_loop (Some copy_copy) fm h0 (next_addr h) (priv_fields lf) = Inr h'"
    "list_objs h' (next_addr h) = Some lo'"
    "\<forall>a. a \<noteq> next_addr h \<longrightarrow> list_objs h' a = list_objs h0 a"
    "\<forall>x<next_addr h0. field_objs h' x = field_objs h0 x"
    "map (get_field h') (priv_fields lo')
       = map (get_field h0) (priv_fields l0) @ mapped_fields fm (map (get_field h0) (priv_fields lf))"
    by blast
  have g0: "get_field h0 = get_field h" by (rule ext) (simp add: h0_def get_field_def)
  have run: "FieldMap_map (Some copy_copy) h fm field_list = Inr (h', next_addr h)"
    using i r(1) lf0 by (simp add: FieldMap_map_def)
  have res: "map (get_field h') (priv_fields (get_list h' (next_addr h)))
         = mapped_fields fm (map (get_field h) (priv_fields lf))"
    using r(2,5) by (simp add: get_list_def g0 l0_def)
  have lfh: "list_objs h' field_list = Some lf"
    using r(3) b(1) assms(2) by (simp add: h0_def)
  have gl: "\<forall>x<next_addr h. get_field h' x = get_field h x"
    using r(4) by (simp add: get_field_def h0_def)
  have 1: "map (get_field h') (priv_fields lf) = map (get_field h) (priv_fields lf)"
    using gl b(2) by simp
  have 2: "(\<lambda>n. map_option (get_field h') (priv_field_dict lf n))
         = (\<lambda>n. map_option (get_field h) (priv_field_dict lf n))"
  proof
    fix n show "map_option (get_field h') (priv_field_dict lf n) = map_option (get_field h) (priv_field_dict lf n)"
      using gl b(3) by (cases "priv_field_dict lf n") auto
  qed
  have obs: "observe h' field_list = observe h field_list"
    using lfh assms(2) 1 2 by (simp add: observe_def get_list_def)
  from run res obs b(1) show ?thesis by auto
qed

section \<open>Properties of left_inner_join\<close>

lemma detail_dict_ok:
  "\<forall>r\<in>set rs. has_index r i \<Longrightarrow> detail_dict rs i d = Inr (d ++ detail_map rs i)"
proof (induction rs arbitrary: d)
  case Nil
  then show ?case by (simp add: detail_map_def)
next
  case (Cons r rs)
  from Cons.prems obtain k where k: "py_getitem r i = Inr k"
    by (auto simp: has_index_def split: sum.splits)
  have "detail_map (r # rs) i = [key_at r i \<mapsto> r] ++ detail_map rs i"
    by (simp add: detail_map_def)
  then show ?case using Cons k by (simp add: key_at_def)
qed

lemma build_maps_ok:
  "\<forall>(detail, join)\<in>set dj. \<forall>r\<in>set detail. has_index r (snd join) \<Longrightarrow>
   build_maps dj = Inr (map (\<lambda>(detail, join). detail_map detail (snd join)) dj)"
proof (induction dj)
  case Nil
  then show ?case by simp
next
  case (Cons a dj)
  obtain detail join where a: "a = (detail, join)" by (cases a)
  with Cons show ?case by (simp add: detail_dict_ok)
qed

lemma join_row_ok:
  "\<forall>(d, join)\<in>set mj. has_index m (fst join) \<Longrightarrow>
   join_row m row mj =
     Inr (if list_all (\<lambda>(d, join). d (key_at m (fst join)) \<noteq> None) mj
          then Some (row @ concat (map (\<lambda>(d, join). the (d (key_at m (fst join)))) mj))
          else None)"
proof (induction mj arbitrary: row)
  case Nil
  then show ?case by simp
next
  case (Cons a mj)
  obtain d join where a: "a = (d, join)" by (cases a)
  from Cons.prems a obtain k where k: "py_getitem m (fst join) = Inr k"
    by (auto simp: has_index_def split: sum.splits)
  then have ka: "key_at m (fst join) = k" by (simp add: key_at_def)
  show ?case
  proof (cases "d k")
    case None
    then show ?thesis using a k ka by simp
  next
    case (Some detail_row)
    then show ?thesis using a k ka Cons by simp
  qed
qed

lemma join_master_ok:
  "\<forall>m\<in>set master. \<forall>(d, join)\<in>set (zip maps joins). has_index m (fst join) \<Longrightarrow>
   join_master master (zip maps joins) =
     (map (extended_row maps joins) (filter (all_match maps joins) master), None)"
proof (induction master)
  case Nil
  then show ?case by simp
next
  case (Cons m master)
  then show ?case
    by (simp add: join_row_ok all_match_def extended_row_def)
qed

text \<open>
  C1. With at least one detail, one join per detail and every join index inside its rows,
  \<open>left_inner_join\<close> ends normally and yields, in master order, exactly the master rows
  for which every detail map has an entry for the row's key, each followed by its
  matched detail rows. So a row is in the output if and only if it is the extension of
  a master row that matches in every detail map; a master row with a miss in any detail
  map contributes nothing.
\<close>

theorem left_inner_join_all_details_match:
  assumes "details \<noteq> []" and "length details = length joins"
    and "\<forall>(detail, join)\<in>set (zip details joins). \<forall>r\<in>set detail. has_index r (snd join)"
    and "\<forall>m\<in>set master. \<forall>join\<in>set joins. has_index m (fst join)"
  shows "left_inner_join master details joins =
           (map (extended_row (detail_maps details joins) joins)
              (filter (all_match (detail_maps details joins) joins) master), None)
         \<and> (\<forall>out_row. out_row \<in> set (fst (left_inner_join master details joins)) \<longleftrightarrow>
               (\<exists>m\<in>set master. all_match (detail_maps details joins) joins m \<and>
                  out_row = extended_row (detail_maps details joins) joins m))"
proof -
  have b: "build_maps (zip details joins) = Inr (detail_maps details joins)"
    using assms(3) by (simp add: build_maps_ok detail_maps_def)
  have "\<forall>m\<in>set master. \<forall>(d, join)\<in>set (zip (detail_maps details joins) joins). has_index m (fst join)"
    using assms(4) by (auto dest: set_zip_rightD)
  then have "join_master master (zip (detail_maps details joins) joins) =
           (map (extended_row (detail_maps details joins) joins)
              (filter (all_match (detail_maps details joins) joins) master), None)"
    by (rule join_master_ok)
  with b assms(1,2) have eq: "left_inner_join master details joins =
           (map (extended_row (detail_maps details joins) joins)
              (filter (all_match (detail_maps details joins) joins) master), None)"
    by (simp add: left_inner_join_def)
  have "\<forall>out_row. out_row \<in> set (fst (left_inner_join master details joins)) \<longleftrightarrow>
           (\<exists>m\<in>set master. all_match (detail_maps details joins) joins m \<and>
              out_row = extended_row (detail_maps details joins) joins m)"
    unfolding eq by auto
  with eq show ?thesis by blast
qed

theorem left_inner_join_all_details_match_witness:
  "[[[VInt 1, VStr ''x''], [VInt 3, VStr ''z'']], [[VStr ''a'', VInt 7]]] \<noteq> []
   \<and> length [[[VInt 1, VStr ''x''], [VInt 3, VStr ''z'']], [[VStr ''a'', VInt 7]]] = length [(0::int, 0::int), (1, 0)]
   \<and> left_inner_join
        [[VInt 1, VStr ''a''], [VInt 2, VStr ''a''], [VInt 3, VStr ''c''], [VInt 3, VStr ''a'']]
        [[[VInt 1, VStr ''x''], [VInt 3, VStr ''z'']], [[VStr ''a'', VInt 7]]]
        [(0, 0), (1, 0)]
      = ([[VInt 1, VStr ''a'', VInt 1, VStr ''x'', VStr ''a'', VInt 7],
          [VInt 3, VStr ''a'', VInt 3, VStr ''z'', VStr ''a'', VInt 7]], None)"
  using left_inner_join_all_details_match
    [of "[[[VInt 1, VStr ''x''], [VInt 3, VStr ''z'']], [[VStr ''a'', VInt 7]]]"
        "[(0, 0), (1, 0)]"
        "[[VInt 1, VStr ''a''], [VInt 2, VStr ''a''], [VInt 3, VStr ''c''], [VInt 3, VStr ''a'']]"]
  by (simp add: has_index_def py_getitem_def detail_maps_def detail_map_def all_match_def
      extended_row_def key_at_def)

section \<open>Properties of distinct\<close>

lemma distinct_unsorted_total_key:
  "distinct_unsorted (\<lambda>r. Inr (key r)) seen rows stop =
     (map (\<lambda>i. rows ! i)
        (filter (\<lambda>i. key (rows ! i) \<notin> seen \<and> (\<forall>j<i. key (rows ! j) \<noteq> key (rows ! i)))
           [0..<length rows]), stop)"
proof (induction rows arbitrary: seen)
  case Nil
  then show ?case by simp
next
  case (Cons r rows)
  have upt: "[0..<length (r # rows)] = 0 # map Suc [0..<length rows]"
    by (simp add: upt_conv_Cons map_Suc_upt del: upt_Suc)
  have all_Suc: "\<And>i P. (\<forall>j<Suc i. P j) = (P 0 \<and> (\<forall>j<i. P (Suc j)))"
    by (metis less_Suc_eq_0_disj Suc_less_eq zero_less_Suc)
  show ?case
  proof (cases "key r \<in> seen")
    case True
    have "filter (\<lambda>i. key (rows ! i) \<notin> seen \<and> key r \<noteq> key (rows ! i) \<and> (\<forall>j<i. key (rows ! j) \<noteq> key (rows ! i))) [0..<length rows]
        = filter (\<lambda>i. key (rows ! i) \<notin> seen \<and> (\<forall>j<i. key (rows ! j) \<noteq> key (rows ! i))) [0..<length rows]"
      using True by (intro filter_cong) auto
    then show ?thesis using True Cons[of seen]
      unfolding upt by (simp add: filter_map comp_def all_Suc del: upt_Suc)
  next
    case False
    have "filter (\<lambda>i. key (rows ! i) \<notin> seen \<and> key r \<noteq> key (rows ! i) \<and> (\<forall>j<i. key (rows ! j) \<noteq> key (rows ! i))) [0..<length rows]
        = filter (\<lambda>i. key (rows ! i) \<notin> insert (key r) seen \<and> (\<forall>j<i. key (rows ! j) \<noteq> key (rows ! i))) [0..<length rows]"
      by (intro filter_cong) auto
    then show ?thesis using False Cons[of "insert (key r) seen"]
      unfolding upt by (simp add: filter_map comp_def all_Suc del: upt_Suc)
  qed
qed

lemma distinct_unsorted_again:
  "T \<subseteq> S \<Longrightarrow>
   distinct_unsorted rf T (fst (distinct_unsorted rf S rows stop)) (snd (distinct_unsorted rf S rows stop))
     = distinct_unsorted rf S rows stop"
proof (induction rows arbitrary: S T)
  case Nil
  then show ?case by simp
next
  case (Cons r rows)
  show ?case
  proof (cases "rf r")
    case (Inl e)
    then show ?thesis by simp
  next
    case (Inr k)
    show ?thesis
    proof (cases "k \<in> S")
      case True
      then show ?thesis using Inr Cons by simp
    next
      case False
      then have kT: "k \<notin> T" using Cons.prems by auto
      have sub: "insert k T \<subseteq> insert k S" using Cons.prems by auto
      show ?thesis using Inr False kT Cons.IH[OF sub] by simp
    qed
  qed
qed

text \<open>
  C7. Unsorted \<open>distinct\<close> over rows whose key tuple can always be computed yields exactly
  the first-seen row of every key tuple, in input order, and ends as its input ends.
  And for every row filter (failing or not) and every input run, applying unsorted
  \<open>distinct\<close> with the same filter to the output of unsorted \<open>distinct\<close> gives that
  output again.
\<close>

theorem distinct_first_seen_idempotent:
  "distinct_iter (Inr (\<lambda>r. Inr (key r))) (rows, stop) False = (first_seen key rows, stop)
   \<and> distinct_iter row_filter (distinct_iter row_filter iterator False) False
       = distinct_iter row_filter iterator False"
proof -
  have a: "distinct_iter (Inr (\<lambda>r. Inr (key r))) (rows, stop) False = (first_seen key rows, stop)"
    by (simp add: distinct_iter_def distinct_unsorted_total_key first_seen_def)
  have b: "distinct_iter row_filter (distinct_iter row_filter iterator False) False
       = distinct_iter row_filter iterator False"
  proof (cases row_filter)
    case (Inl e)
    then show ?thesis by (simp add: distinct_iter_def)
  next
    case (Inr rf)
    then show ?thesis
      using distinct_unsorted_again [of "{}" "{}" rf "fst iterator" "snd iterator"]
      by (simp add: distinct_iter_def)
  qed
  from a b show ?thesis ..
qed

theorem distinct_first_seen_idempotent_witness:
  "distinct_iter (Inr (\<lambda>r. Inr (take 1 r)))
     ([[VStr ''a'', VInt 1], [VStr ''b'', VInt 2], [VStr ''a'', VInt 3]], None) False
     = ([[VStr ''a'', VInt 1], [VStr ''b'', VInt 2]], None)
   \<and> distinct_iter (Inr (\<lambda>r. Inr (take 1 r)))
       (distinct_iter (Inr (\<lambda>r. Inr (take 1 r)))
          ([[VStr ''a'', VInt 1], [VStr ''b'', VInt 2], [VStr ''a'', VInt 3]], None) False) False
     = ([[VStr ''a'', VInt 1], [VStr ''b'', VInt 2]], None)"
proof -
  have fs: "first_seen (take 1) [[VStr ''a'', VInt 1], [VStr ''b'', VInt 2], [VStr ''a'', VInt 3]]
      = [[VStr ''a'', VInt 1], [VStr ''b'', VInt 2]]"
    by code_simp
  show ?thesis
    using distinct_first_seen_idempotent
      [of "take 1" "[[VStr ''a'', VInt 1], [VStr ''b'', VInt 2], [VStr ''a'', VInt 3]]" None
          "Inr (\<lambda>r. Inr (take 1 r))"
          "([[VStr ''a'', VInt 1], [VStr ''b'', VInt 2], [VStr ''a'', VInt 3]], None)"]
    unfolding fs by (simp add: distinct_iter_def)
qed

section \<open>Properties of the transformation compiler\<close>

lemma compile_entry_unknown:
  "unknown_action t \<Longrightarrow> compile_entry t fl = Inr (entry_target t, None)"
  by (auto simp: unknown_action_def compile_entry_def entry_target_def Let_def
      split: entry.splits rule.splits option.splits)

lemma compile_entry_known:
  "\<not> unknown_action t \<Longrightarrow> compile_entry t fl = Inr (target, r) \<Longrightarrow>
   target = entry_target t \<and> r \<noteq> None"
  by (auto simp: unknown_action_def compile_entry_def entry_target_def Let_def
      split: entry.splits rule.splits option.splits sum.splits if_splits)

lemma compile_loop_filter:
  "compile_loop ts fl out = compile_loop (filter (\<lambda>t. \<not> unknown_action t) ts) fl out"
proof (induction ts arbitrary: out)
  case Nil
  then show ?case by simp
next
  case (Cons t ts)
  show ?case
  proof (cases "unknown_action t")
    case True
    then show ?thesis using Cons[of out] by (simp add: compile_entry_unknown)
  next
    case False
    then show ?thesis using Cons by (simp split: sum.splits prod.splits option.splits)
  qed
qed

lemma od_set_keys: "set (map fst (od_set out k v)) = insert k (set (map fst out))"
  by (auto simp: od_set_def split: if_splits) force+

lemma od_set_length: "length (od_set out k v) \<le> Suc (length out)"
  by (simp add: od_set_def)

lemma compile_loop_keys:
  "compile_loop ts fl out = Inr out' \<Longrightarrow>
   set (map fst out') = set (map fst out) \<union> entry_target ` {t \<in> set ts. \<not> unknown_action t}"
proof (induction ts arbitrary: out)
  case Nil
  then show ?case by simp
next
  case (Cons t ts)
  show ?case
  proof (cases "unknown_action t")
    case True
    with Cons.prems have "compile_loop ts fl out = Inr out'"
      by (simp add: compile_entry_unknown)
    from Cons.IH[OF this] True show ?thesis by auto
  next
    case False
    from Cons.prems obtain target r where ce: "compile_entry t fl = Inr (target, r)"
      by (auto split: sum.splits)
    from compile_entry_known[OF False ce] obtain tr where
      r: "r = Some tr" "target = entry_target t" by auto
    with Cons.prems ce have "compile_loop ts fl (od_set out target tr) = Inr out'" by simp
    from Cons.IH[OF this] have "set (map fst out') =
        insert target (set (map fst out)) \<union> entry_target ` {t \<in> set ts. \<not> unknown_action t}"
      by (simp only: od_set_keys)
    moreover have "{u \<in> set (t # ts). \<not> unknown_action u} = insert t {u \<in> set ts. \<not> unknown_action u}"
      using False by auto
    ultimately show ?thesis using r(2) by simp
  qed
qed

lemma compile_loop_length:
  "compile_loop ts fl out = Inr out' \<Longrightarrow>
   length out' \<le> length out + length (filter (\<lambda>t. \<not> unknown_action t) ts)"
proof (induction ts arbitrary: out)
  case Nil
  then show ?case by simp
next
  case (Cons t ts)
  show ?case
  proof (cases "unknown_action t")
    case True
    with Cons.prems have "compile_loop ts fl out = Inr out'"
      by (simp add: compile_entry_unknown)
    from Cons.IH[OF this] True show ?thesis by simp
  next
    case False
    from Cons.prems obtain target r where ce: "compile_entry t fl = Inr (target, r)"
      by (auto split: sum.splits)
    from compile_entry_known[OF False ce] obtain tr where
      r: "r = Some tr" by auto
    with Cons.prems ce have "compile_loop ts fl (od_set out target tr) = Inr out'" by simp
    from Cons.IH[OF this] False od_set_length[of out target tr] show ?thesis by simp
  qed
qed

lemma transform_length: "transform ts row = Inr out_row \<Longrightarrow> length out_row = length ts"
  by (induction ts arbitrary: out_row) (auto split: sum.splits)

lemma filter_unknown_shorter:
  "\<exists>t\<in>set ts. unknown_action t \<Longrightarrow> length (filter (\<lambda>t. \<not> unknown_action t) ts) < length ts"
proof (induction ts)
  case Nil
  then show ?case by simp
next
  case (Cons a ts)
  have le: "length (filter (\<lambda>t. \<not> unknown_action t) ts) \<le> length ts" by simp
  show ?case
  proof (cases "unknown_action a")
    case True
    then show ?thesis by (simp add: less_Suc_eq_le)
  next
    case False
    with Cons.prems have "\<exists>t\<in>set ts. unknown_action t" by auto
    from Cons.IH[OF this] False show ?thesis by simp
  qed
qed

lemma function_transformation_later_field:
  assumes "index_name fl s = Inr i" and "0 < i" and "py_getitem row (int i) = Inr x"
  shows "compiled_mapper
           [Entry2 target (RuleDict \<lparr>desc_action = Some ''function'', desc_source = Some (SrcName s),
              desc_function = f, desc_args = a, desc_map = m, desc_missing_value = mv,
              desc_value = v\<rparr>)] fl row
         = (case call_function f [x] (case a of None \<Rightarrow> [] | Some kw \<Rightarrow> kw) of
              Inl e \<Rightarrow> Inl e
            | Inr result \<Rightarrow> Inr [or_missing result mv])"
  using assms
  by (simp add: compiled_mapper_def compile_transformation_def compile_entry_def
      FunctionTransformation_init_def od_set_def split: sum.splits)

lemmas transform_eval =
  compiled_mapper_def compile_transformation_def compile_entry_def
  CopyValueTransformation_init_def FunctionTransformation_init_def MapTransformation_init_def
  source_index_def index_name_def od_set_def or_missing_def call_function_def

lemma example_ab_names: "priv_field_names example_ab = [''a'', ''b'']"
  by (simp add: example_ab_def fields_eval)

text \<open>
  C9. For a rule of action \<open>function\<close> whose source is the name of the field at
  position 0, the compiled mapper raises TypeError on every row, whatever the function:
  the truth test on the source index 0 fails and the row is compressed with the mask
  \<open>None\<close>. (For a source at a later position the mapper returns the function's result on
  the value at that position, with the missing value substituted for \<open>None\<close>:
  \<open>function_transformation_later_field\<close>.)
\<close>

theorem function_transformation_first_field_fails:
  assumes "index_name fl s = Inr 0"
  shows "compiled_mapper
           [Entry2 target (RuleDict \<lparr>desc_action = Some ''function'', desc_source = Some (SrcName s),
              desc_function = f, desc_args = a, desc_map = m, desc_missing_value = mv,
              desc_value = v\<rparr>)] fl row = Inl TypeError"
  using assms
  by (simp add: compiled_mapper_def compile_transformation_def compile_entry_def
      FunctionTransformation_init_def od_set_def)

theorem function_transformation_first_field_fails_witness:
  "index_name example_ab ''a'' = Inr 0
   \<and> compiled_mapper [Entry2 ''t'' (RuleDict (increment_rule ''a''))] example_ab [VInt 1, VInt 2]
       = Inl TypeError
   \<and> compiled_mapper [Entry2 ''t'' (RuleDict (increment_rule ''b''))] example_ab [VInt 1, VInt 2]
       = Inr [VInt 3]"
proof -
  have i: "index_name example_ab ''a'' = Inr 0"
    by (simp add: index_name_def example_ab_names)
  have later: "compiled_mapper [Entry2 ''t'' (RuleDict (increment_rule ''b''))] example_ab [VInt 1, VInt 2]
       = Inr [VInt 3]"
    by (simp add: transform_eval example_ab_names increment_rule_def increment_def py_getitem_def)
  from function_transformation_first_field_fails [OF i, of "''t''" "Some increment" None None VNone VNone
      "[VInt 1, VInt 2]"] i later
  show ?thesis by (simp add: increment_rule_def)
qed

text \<open>
  C10, as the code has it. An entry whose rule is a dictionary with a non-empty action
  other than \<open>copy\<close>, \<open>function\<close>, \<open>map\<close> and \<open>set\<close> is skipped without an error and
  stores nothing: compiling a transformation list gives the same result (the same error
  or the same list of transformations) as compiling the list without such entries. The
  targets that get a value are exactly the targets of the other entries, so the target
  of a skipped entry gets no value unless another, handled entry has the same target.
  The row returned by the compiled mapper of a list with such an entry is shorter than
  the list of targets.
\<close>

theorem compile_transformation_skips_unknown_action:
  "compile_transformation ts fl = compile_transformation (filter (\<lambda>t. \<not> unknown_action t) ts) fl
   \<and> (\<forall>out. compile_loop ts fl [] = Inr out \<longrightarrow>
         set (map fst out) = entry_target ` {t \<in> set ts. \<not> unknown_action t})
   \<and> (\<forall>row out_row. (\<exists>t\<in>set ts. unknown_action t) \<and> compiled_mapper ts fl row = Inr out_row
         \<longrightarrow> length out_row < length ts)
   \<and> (\<forall>out t. compile_loop ts fl [] = Inr out \<and> t \<in> set ts \<and> unknown_action t
         \<and> (\<forall>u\<in>set ts. \<not> unknown_action u \<longrightarrow> entry_target u \<noteq> entry_target t)
         \<longrightarrow> entry_target t \<notin> set (map fst out))"
proof (intro conjI allI impI)
  show "compile_transformation ts fl = compile_transformation (filter (\<lambda>t. \<not> unknown_action t) ts) fl"
    using compile_loop_filter[of ts fl "[]"] by (simp add: compile_transformation_def)
next
  fix out assume "compile_loop ts fl [] = Inr out"
  from compile_loop_keys[OF this]
  show "set (map fst out) = entry_target ` {t \<in> set ts. \<not> unknown_action t}" by simp
next
  fix row out_row
  assume a: "(\<exists>t\<in>set ts. unknown_action t) \<and> compiled_mapper ts fl row = Inr out_row"
  then obtain out where o: "compile_loop ts fl [] = Inr out" "transform (map snd out) row = Inr out_row"
    by (auto simp: compiled_mapper_def compile_transformation_def split: sum.splits)
  from compile_loop_length[OF o(1)] transform_length[OF o(2)] filter_unknown_shorter a
  show "length out_row < length ts" by fastforce
next
  fix out t
  assume a: "compile_loop ts fl [] = Inr out \<and> t \<in> set ts \<and> unknown_action t
         \<and> (\<forall>u\<in>set ts. \<not> unknown_action u \<longrightarrow> entry_target u \<noteq> entry_target t)"
  then have "set (map fst out) = entry_target ` {t \<in> set ts. \<not> unknown_action t}"
    using compile_loop_keys[of ts fl "[]" out] by simp
  with a show "entry_target t \<notin> set (map fst out)" by auto
qed

theorem compile_transformation_skips_unknown_action_witness:
  "unknown_action (Entry2 ''y'' (RuleDict upper_rule))
   \<and> compile_transformation [Entry2 ''x'' (RuleStr ''a''), Entry2 ''y'' (RuleDict upper_rule)] example_ab
       = Inr [CopyValueTransformation 0 VNone]
   \<and> compiled_mapper [Entry2 ''x'' (RuleStr ''a''), Entry2 ''y'' (RuleDict upper_rule)] example_ab
        [VInt 1, VInt 2] = Inr [VInt 1]
   \<and> length [VInt 1] < length [Entry2 ''x'' (RuleStr ''a''), Entry2 ''y'' (RuleDict upper_rule)]
   \<and> map fst (projr (compile_loop [Entry2 ''x'' (RuleStr ''a''), Entry2 ''y'' (RuleDict upper_rule)]
                        example_ab [])) = [''x'']"
proof -
  have u: "unknown_action (Entry2 ''y'' (RuleDict upper_rule))"
    by (simp add: unknown_action_def upper_rule_def)
  then have f: "filter (\<lambda>t. \<not> unknown_action t)
                  [Entry2 ''x'' (RuleStr ''a''), Entry2 ''y'' (RuleDict upper_rule)]
                = [Entry2 ''x'' (RuleStr ''a'')]"
    by (simp add: unknown_action_def)
  have c: "compile_transformation [Entry2 ''x'' (RuleStr ''a'')] example_ab
             = Inr [CopyValueTransformation 0 VNone]"
    by (simp add: transform_eval example_ab_names)
  from compile_transformation_skips_unknown_action
         [of "[Entry2 ''x'' (RuleStr ''a''), Entry2 ''y'' (RuleDict upper_rule)]" example_ab]
  have c2: "compile_transformation [Entry2 ''x'' (RuleStr ''a''), Entry2 ''y'' (RuleDict upper_rule)] example_ab
             = Inr [CopyValueTransformation 0 VNone]"
    unfolding f c by blast
  then have m: "compiled_mapper [Entry2 ''x'' (RuleStr ''a''), Entry2 ''y'' (RuleDict upper_rule)] example_ab
        [VInt 1, VInt 2] = Inr [VInt 1]"
    by (simp add: compiled_mapper_def py_getitem_def or_missing_def)
  have k: "map fst (projr (compile_loop [Entry2 ''x'' (RuleStr ''a''), Entry2 ''y'' (RuleDict upper_rule)]
                        example_ab [])) = [''x'']"
    by (simp add: transform_eval example_ab_names upper_rule_def)
  from u c2 m k show ?thesis by simp
qed

text \<open>
  C10 as stated fails where a handled entry has the target of the skipped one: for
  \<open>[("a", None), ("a", {"action": "upper"})]\<close> under the fields \<open>a, b\<close> the second entry is
  skipped, and yet the target \<open>a\<close> is a key of the compiled dictionary and the row
  \<open>(1, 2)\<close> is mapped to \<open>[1]\<close>, a value for \<open>a\<close>.
\<close>

theorem compile_transformation_skipped_target_counterexample:
  "unknown_action (Entry2 ''a'' (RuleDict upper_rule))
   \<and> entry_target (Entry2 ''a'' (RuleDict upper_rule)) = ''a''
   \<and> map fst (projr (compile_loop [Entry2 ''a'' RuleNone, Entry2 ''a'' (RuleDict upper_rule)]
                        example_ab [])) = [''a'']
   \<and> compiled_mapper [Entry2 ''a'' RuleNone, Entry2 ''a'' (RuleDict upper_rule)] example_ab
        [VInt 1, VInt 2] = Inr [VInt 1]"
  by (simp add: unknown_action_def entry_target_def upper_rule_def transform_eval example_ab_names
      py_getitem_def)

section \<open>Properties of aggregate\<close>

lemma py_getitem_mid:
  "py_getitem (pre @ a # post) (int (length pre)) = Inr a"
  by (simp add: py_getitem_def)

lemma py_setitem_mid:
  "py_setitem (pre @ a # post) (int (length pre)) b = Inr (pre @ b # post)"
  by (simp add: py_setitem_def)

lemma py_getitem_nat:
  "py_getitem row (int i) = Inr v \<Longrightarrow> has_index row (int i) \<and> key_at row (int i) = v"
  by (simp add: has_index_def key_at_def)

lemma update_measures_shape:
  "update_measures (length pre) mas (pre @ accs @ post) row = Inr ka \<Longrightarrow>
   length accs = length mas \<Longrightarrow>
   \<exists>accs'. ka = pre @ accs' @ post \<and> length accs' = length mas
     \<and> (\<forall>j<length mas. \<exists>af. aggregation_functions (snd (snd (mas ! j))) = Some af
            \<and> func af (accs ! j) (key_at row (int (fst (snd (mas ! j))))) = Inr (accs' ! j))"
proof (induction mas arbitrary: pre accs)
  case Nil
  then show ?case by simp
next
  case (Cons ma mas)
  obtain m index fn where ma: "ma = (m, index, fn)" by (cases ma)
  from Cons.prems(2) obtain a accs1 where accs: "accs = a # accs1" "length accs1 = length mas"
    by (cases accs) auto
  from Cons.prems(1) ma obtain af where af: "aggregation_functions fn = Some af"
    by (auto split: option.splits)
  have g: "py_getitem (pre @ accs @ post) (int (length pre)) = Inr a"
    using accs py_getitem_mid[of pre a "accs1 @ post"] by simp
  from Cons.prems(1) ma af g obtain v where v: "py_getitem row (int index) = Inr v"
    by (auto split: sum.splits)
  from Cons.prems(1) ma af g v obtain a' where a': "func af a v = Inr a'"
    by (auto split: sum.splits)
  have s: "py_setitem (pre @ accs @ post) (int (length pre)) a' = Inr ((pre @ [a']) @ accs1 @ post)"
    using accs py_setitem_mid[of pre a "accs1 @ post" a'] by simp
  from Cons.prems(1) ma af g v a' s
  have rest: "update_measures (length (pre @ [a'])) mas ((pre @ [a']) @ accs1 @ post) row = Inr ka"
    by simp
  from Cons.IH[OF rest accs(2)] obtain accs1' where r:
    "ka = (pre @ [a']) @ accs1' @ post" "length accs1' = length mas"
    "\<forall>j<length mas. \<exists>af. aggregation_functions (snd (snd (mas ! j))) = Some af
            \<and> func af (accs1 ! j) (key_at row (int (fst (snd (mas ! j))))) = Inr (accs1' ! j)"
    by blast
  have kv: "key_at row (int index) = v" using v by (simp add: key_at_def)
  have "\<forall>j<length (ma # mas). \<exists>af. aggregation_functions (snd (snd ((ma # mas) ! j))) = Some af
            \<and> func af (accs ! j) (key_at row (int (fst (snd ((ma # mas) ! j))))) = Inr ((a' # accs1') ! j)"
  proof (intro allI impI)
    fix j assume "j < length (ma # mas)"
    then show "\<exists>af. aggregation_functions (snd (snd ((ma # mas) ! j))) = Some af
            \<and> func af (accs ! j) (key_at row (int (fst (snd ((ma # mas) ! j))))) = Inr ((a' # accs1') ! j)"
      using r(3) ma af a' kv accs(1) by (cases j) auto
  qed
  then show ?case using r(1,2) by (intro exI[of _ "a' # accs1'"]) simp
qed

lemma increment_count_shape:
  "increment_count (accs @ [VInt c]) = Inr (accs @ [VInt (c + 1)])"
  by (simp add: increment_count_def py_getitem_def py_setitem_def nth_append)

lemma update_key_aggregate_shape:
  assumes "update_key_aggregate mas ic (accs @ (if ic then [VInt c] else [])) row = Inr ka"
    and "length accs = length mas"
  shows "\<exists>accs'. ka = accs' @ (if ic then [VInt (c + 1)] else []) \<and> length accs' = length mas
     \<and> (\<forall>j<length mas. \<exists>af. aggregation_functions (snd (snd (mas ! j))) = Some af
            \<and> func af (accs ! j) (key_at row (int (fst (snd (mas ! j))))) = Inr (accs' ! j))"
proof -
  from assms(1) obtain ka1 where
    u: "update_measures (length ([]::val list)) mas ([] @ accs @ (if ic then [VInt c] else [])) row = Inr ka1"
    and k: "(if ic then increment_count ka1 else Inr ka1) = Inr ka"
    by (auto simp: update_key_aggregate_def split: sum.splits)
  from update_measures_shape[OF u assms(2)] obtain accs' where r:
    "ka1 = accs' @ (if ic then [VInt c] else [])" "length accs' = length mas"
    "\<forall>j<length mas. \<exists>af. aggregation_functions (snd (snd (mas ! j))) = Some af
            \<and> func af (accs ! j) (key_at row (int (fst (snd (mas ! j))))) = Inr (accs' ! j)"
    by auto
  have "ka = accs' @ (if ic then [VInt (c + 1)] else [])"
    using k r(1) by (cases ic) (simp_all add: increment_count_shape)
  with r(2,3) show ?thesis by blast
qed

lemma fold_rows_shape:
  "fold_rows mas ic (accs @ (if ic then [VInt c] else [])) rs = Inr ka \<Longrightarrow>
   length accs = length mas \<Longrightarrow>
   \<exists>accs'. ka = accs' @ (if ic then [VInt (c + int (length rs))] else []) \<and> length accs' = length mas
     \<and> (\<forall>j<length mas. \<forall>af. aggregation_functions (snd (snd (mas ! j))) = Some af \<longrightarrow>
            fold_values (func af) (accs ! j) (field_values (fst (snd (mas ! j))) rs) = Inr (accs' ! j))"
proof (induction rs arbitrary: accs c)
  case Nil
  then have "ka = accs @ (if ic then [VInt (c + int (length ([]::row list)))] else [])"
    by auto
  with Nil.prems(2) show ?case
    by (intro exI[of _ accs]) (auto simp: field_values_def)
next
  case (Cons r rs)
  from Cons.prems(1) obtain ka1 where
    u: "update_key_aggregate mas ic (accs @ (if ic then [VInt c] else [])) r = Inr ka1"
    and f: "fold_rows mas ic ka1 rs = Inr ka"
    by (auto split: sum.splits)
  from update_key_aggregate_shape[OF u Cons.prems(2)] obtain accs1 where r1:
    "ka1 = accs1 @ (if ic then [VInt (c + 1)] else [])" "length accs1 = length mas"
    "\<forall>j<length mas. \<exists>af. aggregation_functions (snd (snd (mas ! j))) = Some af
            \<and> func af (accs ! j) (key_at r (int (fst (snd (mas ! j))))) = Inr (accs1 ! j)"
    by blast
  from Cons.IH[OF f[unfolded r1(1)] r1(2)] obtain accs' where r2:
    "ka = accs' @ (if ic then [VInt (c + 1 + int (length rs))] else [])" "length accs' = length mas"
    "\<forall>j<length mas. \<forall>af. aggregation_functions (snd (snd (mas ! j))) = Some af \<longrightarrow>
            fold_values (func af) (accs1 ! j) (field_values (fst (snd (mas ! j))) rs) = Inr (accs' ! j)"
    by blast
  have "\<forall>j<length mas. \<forall>af. aggregation_functions (snd (snd (mas ! j))) = Some af \<longrightarrow>
            fold_values (func af) (accs ! j) (field_values (fst (snd (mas ! j))) (r # rs)) = Inr (accs' ! j)"
  proof (intro allI impI)
    fix j af assume j: "j < length mas" and af: "aggregation_functions (snd (snd (mas ! j))) = Some af"
    from r1(3) j af have "func af (accs ! j) (key_at r (int (fst (snd (mas ! j))))) = Inr (accs1 ! j)"
      by auto
    moreover from r2(3) j af
    have "fold_values (func af) (accs1 ! j) (field_values (fst (snd (mas ! j))) rs) = Inr (accs' ! j)"
      by auto
    ultimately show "fold_values (func af) (accs ! j) (field_values (fst (snd (mas ! j))) (r # rs)) = Inr (accs' ! j)"
      by (simp add: field_values_def)
  qed
  moreover have "ka = accs' @ (if ic then [VInt (c + int (length (r # rs)))] else [])"
    using r2(1) by (simp add: add.commute add.left_commute)
  ultimately show ?case using r2(2) by blast
qed

lemma start_values_shape:
  "start_values mas = Inr vs \<Longrightarrow>
   length vs = length mas
   \<and> (\<forall>j<length mas. \<exists>af. aggregation_functions (snd (snd (mas ! j))) = Some af \<and> vs ! j = start af)"
proof (induction mas arbitrary: vs)
  case Nil
  then show ?case by simp
next
  case (Cons ma mas)
  obtain m index fn where ma: "ma = (m, index, fn)" by (cases ma)
  from Cons.prems ma obtain af vs1 where r:
    "aggregation_functions fn = Some af" "start_values mas = Inr vs1" "vs = start af # vs1"
    by (auto split: option.splits sum.splits)
  from Cons.IH[OF r(2)] have ih: "length vs1 = length mas"
    "\<forall>j<length mas. \<exists>af. aggregation_functions (snd (snd (mas ! j))) = Some af \<and> vs1 ! j = start af"
    by auto
  have "\<forall>j<length (ma # mas). \<exists>af. aggregation_functions (snd (snd ((ma # mas) ! j))) = Some af
          \<and> vs ! j = start af"
  proof (intro allI impI)
    fix j assume "j < length (ma # mas)"
    then show "\<exists>af. aggregation_functions (snd (snd ((ma # mas) ! j))) = Some af \<and> vs ! j = start af"
      using ih(2) r(1,3) ma by (cases j) auto
  qed
  then show ?case using ih(1) r(3) by simp
qed

lemma finalize_measures_shape:
  "finalize_measures (length pre) mas (pre @ accs @ post) = Inr vs \<Longrightarrow>
   length accs = length mas \<Longrightarrow>
   length vs = length mas
   \<and> (\<forall>j<length mas. \<exists>af. aggregation_functions (snd (snd (mas ! j))) = Some af
          \<and> finalized af (accs ! j) = Inr (vs ! j))"
proof (induction mas arbitrary: pre accs vs)
  case Nil
  then show ?case by simp
next
  case (Cons ma mas)
  obtain m index fn where ma: "ma = (m, index, fn)" by (cases ma)
  from Cons.prems(2) obtain a accs1 where accs: "accs = a # accs1" "length accs1 = length mas"
    by (cases accs) auto
  have g: "py_getitem (pre @ accs @ post) (int (length pre)) = Inr a"
    using accs py_getitem_mid[of pre a "accs1 @ post"] by simp
  from Cons.prems(1) ma g obtain af v vs1 where r:
    "aggregation_functions fn = Some af" "finalized af a = Inr v"
    "finalize_measures (Suc (length pre)) mas (pre @ accs @ post) = Inr vs1" "vs = v # vs1"
    by (auto simp: finalized_def split: option.splits sum.splits)
  have "finalize_measures (length (pre @ [a])) mas ((pre @ [a]) @ accs1 @ post) = Inr vs1"
    using r(3) accs(1) by simp
  from Cons.IH[OF this accs(2)] have ih: "length vs1 = length mas"
    "\<forall>j<length mas. \<exists>af. aggregation_functions (snd (snd (mas ! j))) = Some af
          \<and> finalized af (accs1 ! j) = Inr (vs1 ! j)"
    by auto
  have "\<forall>j<length (ma # mas). \<exists>af. aggregation_functions (snd (snd ((ma # mas) ! j))) = Some af
          \<and> finalized af (accs ! j) = Inr (vs ! j)"
  proof (intro allI impI)
    fix j assume "j < length (ma # mas)"
    then show "\<exists>af. aggregation_functions (snd (snd ((ma # mas) ! j))) = Some af
          \<and> finalized af (accs ! j) = Inr (vs ! j)"
      using ih(2) r(1,2,4) ma accs(1) by (cases j) auto
  qed
  then show ?case using ih(1) r(4) by simp
qed

lemma output_row_expected:
  assumes "new_key_aggregate mas ic = Inr ka0" and "fold_rows mas ic ka0 rs = Inr ka"
    and "aggs k = Some ka" and "output_row mas ic aggs k = Inr row"
  shows "row = expected_row mas ic rs k \<and> (\<forall>ma\<in>set mas. \<exists>v. measure_value ma rs = Inr v)"
proof -
  from assms(1) obtain starts where st: "start_values mas = Inr starts"
    "ka0 = starts @ (if ic then [VInt 0] else [])"
    by (auto simp: new_key_aggregate_def split: sum.splits)
  from start_values_shape[OF st(1)] have sl: "length starts = length mas"
    and ss: "\<forall>j<length mas. \<exists>af. aggregation_functions (snd (snd (mas ! j))) = Some af \<and> starts ! j = start af"
    by auto
  from fold_rows_shape[OF assms(2)[unfolded st(2)] sl] obtain accs where ac:
    "ka = accs @ (if ic then [VInt (0 + int (length rs))] else [])" "length accs = length mas"
    "\<forall>j<length mas. \<forall>af. aggregation_functions (snd (snd (mas ! j))) = Some af \<longrightarrow>
        fold_values (func af) (starts ! j) (field_values (fst (snd (mas ! j))) rs) = Inr (accs ! j)"
    by blast
  from assms(3,4) obtain vs where vs: "finalize_measures 0 mas ka = Inr vs"
    and row: "(if ic then (case py_getitem ka (- 1) of Inl e \<Rightarrow> Inl e | Inr c \<Rightarrow> Inr (k @ vs @ [c]))
               else Inr (k @ vs)) = Inr row"
    by (auto simp: output_row_def split: sum.splits)
  have "finalize_measures (length ([]::val list)) mas ([] @ accs @ (if ic then [VInt (0 + int (length rs))] else [])) = Inr vs"
    using vs ac(1) by simp
  from finalize_measures_shape[OF this ac(2)] have vl: "length vs = length mas"
    and vf: "\<forall>j<length mas. \<exists>af. aggregation_functions (snd (snd (mas ! j))) = Some af
          \<and> finalized af (accs ! j) = Inr (vs ! j)"
    by auto
  have mv: "\<forall>j<length mas. measure_value (mas ! j) rs = Inr (vs ! j)"
  proof (intro allI impI)
    fix j assume j: "j < length mas"
    from ss j obtain af where af: "aggregation_functions (snd (snd (mas ! j))) = Some af"
      "starts ! j = start af" by auto
    from ac(3) j af have "fold_values (func af) (start af) (field_values (fst (snd (mas ! j))) rs) = Inr (accs ! j)"
      by auto
    moreover from vf j af(1) have "finalized af (accs ! j) = Inr (vs ! j)" by auto
    ultimately show "measure_value (mas ! j) rs = Inr (vs ! j)"
      using af(1) by (simp add: measure_value_def)
  qed
  have vs_eq: "vs = map (\<lambda>ma. projr (measure_value ma rs)) mas"
    using vl mv by (auto simp: list_eq_iff_nth_eq)
  have all: "\<forall>ma\<in>set mas. \<exists>v. measure_value ma rs = Inr v"
  proof
    fix ma assume "ma \<in> set mas"
    then obtain j where "j < length mas" "mas ! j = ma" by (auto simp: in_set_conv_nth)
    with mv show "\<exists>v. measure_value ma rs = Inr v" by metis
  qed
  have "row = k @ vs @ (if ic then [VInt (int (length rs))] else [])"
  proof (cases ic)
    case True
    then have "py_getitem ka (- 1) = Inr (VInt (int (length rs)))"
      using ac(1) by (simp add: py_getitem_def nth_append)
    with row True show ?thesis by simp
  next
    case False
    with row show ?thesis by simp
  qed
  with vs_eq all show ?thesis by (simp add: expected_row_def)
qed

lemma aggregate_row_cases:
  assumes "aggregate_row mas sel ic st0 r = Inr st"
  shows "\<exists>ka0 ka. (case snd st0 (compress r sel) of Some x \<Rightarrow> Inr x | None \<Rightarrow> new_key_aggregate mas ic) = Inr ka0
     \<and> update_key_aggregate mas ic ka0 r = Inr ka
     \<and> snd st = (snd st0)(compress r sel \<mapsto> ka)
     \<and> fst st = (if snd st0 (compress r sel) = None then fst st0 @ [compress r sel] else fst st0)"
  using assms
  by (auto simp: aggregate_row_def Let_def split: option.splits sum.splits)

lemma aggregate_rows_keys:
  "aggregate_rows mas sel ic st0 rows = Inr st \<Longrightarrow>
   distinct (fst st0) \<Longrightarrow> set (fst st0) = dom (snd st0) \<Longrightarrow>
   distinct (fst st) \<and> set (fst st) = dom (snd st)
   \<and> set (fst st) = set (fst st0) \<union> (\<lambda>r. compress r sel) ` set rows"
proof (induction rows arbitrary: st0)
  case Nil
  then show ?case by simp
next
  case (Cons r rows)
  from Cons.prems(1) obtain st1 where s1: "aggregate_row mas sel ic st0 r = Inr st1"
    and rest: "aggregate_rows mas sel ic st1 rows = Inr st"
    by (auto split: sum.splits)
  from aggregate_row_cases[OF s1] obtain ka where c:
    "snd st1 = (snd st0)(compress r sel \<mapsto> ka)"
    "fst st1 = (if snd st0 (compress r sel) = None then fst st0 @ [compress r sel] else fst st0)"
    by blast
  have d1: "distinct (fst st1)" using c(2) Cons.prems(2,3) by (auto simp: dom_def)
  have e1: "set (fst st1) = dom (snd st1)" using c Cons.prems(3) by (auto simp: dom_def)
  have k1: "set (fst st1) = insert (compress r sel) (set (fst st0))"
    using c Cons.prems(3) by (auto simp: dom_def)
  from Cons.IH[OF rest d1 e1] k1 show ?case by auto
qed

lemma aggregate_rows_per_key:
  "aggregate_rows mas sel ic st0 rows = Inr st \<Longrightarrow>
   (key_rows sel rows k = [] \<longrightarrow> snd st k = snd st0 k)
   \<and> (key_rows sel rows k \<noteq> [] \<longrightarrow>
        (\<exists>ka0 ka. (case snd st0 k of Some x \<Rightarrow> Inr x | None \<Rightarrow> new_key_aggregate mas ic) = Inr ka0
           \<and> fold_rows mas ic ka0 (key_rows sel rows k) = Inr ka \<and> snd st k = Some ka))"
proof (induction rows arbitrary: st0)
  case Nil
  then show ?case by (simp add: key_rows_def)
next
  case (Cons r rows)
  from Cons.prems(1) obtain st1 where s1: "aggregate_row mas sel ic st0 r = Inr st1"
    and rest: "aggregate_rows mas sel ic st1 rows = Inr st"
    by (auto split: sum.splits)
  from aggregate_row_cases[OF s1] obtain ka0 ka1 where c:
    "(case snd st0 (compress r sel) of Some x \<Rightarrow> Inr x | None \<Rightarrow> new_key_aggregate mas ic) = Inr ka0"
    "update_key_aggregate mas ic ka0 r = Inr ka1"
    "snd st1 = (snd st0)(compress r sel \<mapsto> ka1)"
    by blast
  note ih = Cons.IH[OF rest]
  show ?case
  proof (cases "compress r sel = k")
    case False
    then have kr: "key_rows sel (r # rows) k = key_rows sel rows k" by (simp add: key_rows_def)
    from False c(3) have "snd st1 k = snd st0 k" by simp
    with ih kr show ?thesis by simp
  next
    case True
    then have kr: "key_rows sel (r # rows) k = r # key_rows sel rows k" by (simp add: key_rows_def)
    from True c(3) have s1k: "snd st1 k = Some ka1" by simp
    show ?thesis
    proof (cases "key_rows sel rows k = []")
      case True
      with ih s1k have "snd st k = Some ka1" by simp
      then show ?thesis using kr True c(1,2) \<open>compress r sel = k\<close> by auto
    next
      case False
      with ih s1k obtain ka where "fold_rows mas ic ka1 (key_rows sel rows k) = Inr ka" "snd st k = Some ka"
        by auto
      then show ?thesis using kr c(1,2) \<open>compress r sel = k\<close> by auto
    qed
  qed
qed

lemma output_rows_ok:
  "output_rows mas ic aggs keys = (out, None) \<Longrightarrow>
   list_all2 (\<lambda>k row. output_row mas ic aggs k = Inr row) keys out"
proof (induction keys arbitrary: out)
  case Nil
  then show ?case by simp
next
  case (Cons k keys)
  from Cons.prems obtain row where r: "output_row mas ic aggs k = Inr row"
    by (auto split: sum.splits)
  with Cons.prems have o: "out = row # fst (output_rows mas ic aggs keys)"
    "snd (output_rows mas ic aggs keys) = None" by auto
  then have "output_rows mas ic aggs keys = (fst (output_rows mas ic aggs keys), None)"
    by (metis prod.collapse)
  from Cons.IH[OF this] r o(1) show ?case by simp
qed

lemma aggregate_general:
  assumes "aggregate rows fl key_fields measure_list include_count = (out, None)"
  shows "\<not> isl (measure_aggregates_of measure_list fl)
     \<and> mset out =
         image_mset
           (\<lambda>k. expected_row (projr (measure_aggregates_of measure_list fl)) include_count
                  (key_rows (if key_fields \<noteq> [] then mask fl key_fields else []) rows k) k)
           (mset_set ((\<lambda>r. compress r (if key_fields \<noteq> [] then mask fl key_fields else [])) ` set rows))
     \<and> (\<forall>r\<in>set rows. \<forall>ma\<in>set (projr (measure_aggregates_of measure_list fl)).
           \<exists>v. measure_value ma
                  (key_rows (if key_fields \<noteq> [] then mask fl key_fields else []) rows
                     (compress r (if key_fields \<noteq> [] then mask fl key_fields else []))) = Inr v)"
proof -
  define sel where "sel = (if key_fields \<noteq> [] then mask fl key_fields else [])"
  from assms obtain mas where mas: "measure_aggregates_of measure_list fl = Inr mas"
    by (auto simp: aggregate_def split: sum.splits)
  from assms mas obtain st where st: "aggregate_rows mas sel include_count ([], Map.empty) rows = Inr st"
    and o: "output_rows mas include_count (snd st) (fst st) = (out, None)"
    by (auto simp: aggregate_def sel_def split: sum.splits)
  from aggregate_rows_keys[OF st] have keys: "distinct (fst st)"
    "set (fst st) = (\<lambda>r. compress r sel) ` set rows" by auto
  have per: "\<exists>ka0 ka. new_key_aggregate mas include_count = Inr ka0
        \<and> fold_rows mas include_count ka0 (key_rows sel rows k) = Inr ka \<and> snd st k = Some ka"
    if "k \<in> set (fst st)" for k
  proof -
    from that keys(2) obtain r where "r \<in> set rows" "compress r sel = k" by auto
    then have "key_rows sel rows k \<noteq> []" by (auto simp: key_rows_def filter_empty_conv)
    with aggregate_rows_per_key[OF st, of k] show ?thesis by auto
  qed
  from output_rows_ok[OF o]
  have l2: "list_all2 (\<lambda>k row. output_row mas include_count (snd st) k = Inr row) (fst st) out" .
  have len: "length out = length (fst st)" using l2 by (simp add: list_all2_lengthD)
  have nth: "out ! i = expected_row mas include_count (key_rows sel rows (fst st ! i)) (fst st ! i)
      \<and> (\<forall>ma\<in>set mas. \<exists>v. measure_value ma (key_rows sel rows (fst st ! i)) = Inr v)"
    if "i < length (fst st)" for i
  proof -
    from that have k: "fst st ! i \<in> set (fst st)" by simp
    from per[OF k] obtain ka0 ka where p: "new_key_aggregate mas include_count = Inr ka0"
      "fold_rows mas include_count ka0 (key_rows sel rows (fst st ! i)) = Inr ka"
      "snd st (fst st ! i) = Some ka" by blast
    from list_all2_nthD[OF l2 that]
    have "output_row mas include_count (snd st) (fst st ! i) = Inr (out ! i)" .
    from output_row_expected[OF p(1,2,3) this] show ?thesis .
  qed
  have out_eq: "out = map (\<lambda>k. expected_row mas include_count (key_rows sel rows k) k) (fst st)"
    using len nth by (auto simp: list_eq_iff_nth_eq)
  have "mset (fst st) = mset_set ((\<lambda>r. compress r sel) ` set rows)"
    using keys by (metis mset_set_set)
  with out_eq have m: "mset out =
      image_mset (\<lambda>k. expected_row mas include_count (key_rows sel rows k) k)
        (mset_set ((\<lambda>r. compress r sel) ` set rows))"
    by (metis mset_map)
  have all: "\<forall>r\<in>set rows. \<forall>ma\<in>set mas. \<exists>v. measure_value ma (key_rows sel rows (compress r sel)) = Inr v"
  proof
    fix r assume "r \<in> set rows"
    with keys(2) have "compress r sel \<in> set (fst st)" by auto
    then obtain i where "i < length (fst st)" "fst st ! i = compress r sel"
      by (auto simp: in_set_conv_nth)
    with nth show "\<forall>ma\<in>set mas. \<exists>v. measure_value ma (key_rows sel rows (compress r sel)) = Inr v"
      by metis
  qed
  from mas m all show ?thesis by (simp add: sel_def)
qed

lemmas aggregate_eval =
  aggregate_def index_name_def mask_def compress_def aggregate_row_def new_key_aggregate_def
  update_key_aggregate_def increment_count_def output_row_def aggregation_functions_def
  agg_sum_def py_getitem_def py_setitem_def Let_def

lemma example_region_amount_names: "priv_field_names example_region_amount = [''region'', ''amount'']"
  by (simp add: example_region_amount_def fields_eval)

lemma aggregate_example:
  "aggregate example_rows example_region_amount [''region''] [MeasurePair ''amount'' ''sum''] True
     = ([[VStr ''east'', VInt 13, VInt 2], [VStr ''west'', VInt 5, VInt 1]], None)"
  by (simp add: aggregate_eval example_rows_def example_region_amount_names)

text \<open>
  C8. With the measure \<open>("amount", "sum")\<close>, the key field \<open>region\<close> and the count, the rows
  \<open>("east", 10), ("west", 5), ("east", 3)\<close> under the fields \<open>region, amount\<close> give exactly
  the two rows \<open>("east", 13, 2)\<close> and \<open>("west", 5, 1)\<close>, and the run ends normally.
  In general, whenever \<open>aggregate\<close> ends normally, its output has exactly one row for
  every distinct key of the input, and the row of a key is the key values, then the
  finalized value of every measure in request order (each measure's function folded
  from its start value over the group's values of the measure's field), then the number
  of rows of the group when the count is requested; all these measure values exist.
\<close>

theorem aggregate_one_row_per_key:
  "(snd (aggregate example_rows example_region_amount [''region''] [MeasurePair ''amount'' ''sum''] True)
      = None
    \<and> mset (fst (aggregate example_rows example_region_amount [''region'']
                  [MeasurePair ''amount'' ''sum''] True))
      = {#[VStr ''east'', VInt 13, VInt 2], [VStr ''west'', VInt 5, VInt 1]#})
   \<and> (aggregate rows fl key_fields measure_list include_count = (out, None) \<longrightarrow>
        \<not> isl (measure_aggregates_of measure_list fl)
        \<and> mset out =
            image_mset
              (\<lambda>k. expected_row (projr (measure_aggregates_of measure_list fl)) include_count
                     (key_rows (if key_fields \<noteq> [] then mask fl key_fields else []) rows k) k)
              (mset_set ((\<lambda>r. compress r (if key_fields \<noteq> [] then mask fl key_fields else [])) ` set rows))
        \<and> (\<forall>r\<in>set rows. \<forall>ma\<in>set (projr (measure_aggregates_of measure_list fl)).
              \<exists>v. measure_value ma
                     (key_rows (if key_fields \<noteq> [] then mask fl key_fields else []) rows
                        (compress r (if key_fields \<noteq> [] then mask fl key_fields else []))) = Inr v))"
  using aggregate_general [of rows fl key_fields measure_list include_count out]
  by (simp only: aggregate_example fst_conv snd_conv mset.simps) blast

theorem aggregate_one_row_per_key_witness:
  "aggregate example_rows example_region_amount [''region''] [MeasurePair ''amount'' ''sum''] True
     = ([[VStr ''east'', VInt 13, VInt 2], [VStr ''west'', VInt 5, VInt 1]], None)
   \<and> measure_aggregates_of [MeasurePair ''amount'' ''sum''] example_region_amount
       = Inr [(''amount'', 1, ''sum'')]
   \<and> mset [[VStr ''east'', VInt 13, VInt 2], [VStr ''west'', VInt 5, VInt 1]] =
       image_mset
         (\<lambda>k. expected_row [(''amount'', 1, ''sum'')] True (key_rows [True, False] example_rows k) k)
         (mset_set ((\<lambda>r. compress r [True, False]) ` set example_rows))
   \<and> expected_row [(''amount'', 1, ''sum'')] True
        (key_rows [True, False] example_rows [VStr ''east'']) [VStr ''east'']
       = [VStr ''east'', VInt 13, VInt 2]"
proof -
  have e: "aggregate example_rows example_region_amount [''region''] [MeasurePair ''amount'' ''sum''] True
     = ([[VStr ''east'', VInt 13, VInt 2], [VStr ''west'', VInt 5, VInt 1]], None)"
    by (simp add: aggregate_eval example_rows_def example_region_amount_names)
  have m: "measure_aggregates_of [MeasurePair ''amount'' ''sum''] example_region_amount
       = Inr [(''amount'', 1, ''sum'')]"
    by (simp add: index_name_def example_region_amount_names)
  have s: "(if [''region''] \<noteq> [] then mask example_region_amount [''region''] else []) = [True, False]"
    by (simp add: mask_def example_region_amount_names)
  have x: "expected_row [(''amount'', 1, ''sum'')] True
        (key_rows [True, False] example_rows [VStr ''east'']) [VStr ''east'']
       = [VStr ''east'', VInt 13, VInt 2]"
    by (simp add: expected_row_def key_rows_def example_rows_def compress_def measure_value_def
        aggregation_functions_def field_values_def key_at_def py_getitem_def agg_sum_def finalized_def)
  from aggregate_one_row_per_key
         [of example_rows example_region_amount "[''region'']" "[MeasurePair ''amount'' ''sum'']" True
             "[[VStr ''east'', VInt 13, VInt 2], [VStr ''west'', VInt 5, VInt 1]]"] e
  have "mset [[VStr ''east'', VInt 13, VInt 2], [VStr ''west'', VInt 5, VInt 1]] =
       image_mset
         (\<lambda>k. expected_row (projr (measure_aggregates_of [MeasurePair ''amount'' ''sum''] example_region_amount)) True
                (key_rows (if [''region''] \<noteq> [] then mask example_region_amount [''region''] else [])
                   example_rows k) k)
         (mset_set ((\<lambda>r. compress r (if [''region''] \<noteq> [] then mask example_region_amount [''region''] else []))
                      ` set example_rows))"
    by blast
  then have "mset [[VStr ''east'', VInt 13, VInt 2], [VStr ''west'', VInt 5, VInt 1]] =
       image_mset
         (\<lambda>k. expected_row [(''amount'', 1, ''sum'')] True (key_rows [True, False] example_rows k) k)
         (mset_set ((\<lambda>r. compress r [True, False]) ` set example_rows))"
    unfolding m s by simp
  with e m x show ?thesis by blast
qed

end
